theory Spec2Isabelle
  imports Complex_Main
begin

section \<open>The input stream read by the constructor\<close>

text \<open>
  \<^verbatim>\<open>outputlist.cpp\<close> reads its input file through a \<^verbatim>\<open>std::ifstream\<close>, with
  \<^verbatim>\<open>getline\<close> for whole lines and \<^verbatim>\<open>operator>>\<close> for the tokens of a unit. The stream
  is modelled by the characters the device still delivers and the three state bits:
  eofbit, which \<^verbatim>\<open>paramfile.eof()\<close> reads, and failbit and badbit, which the conversion of
  the stream to \<^verbatim>\<open>bool\<close> in the loop conditions reads (it is \<^verbatim>\<open>!fail()\<close>). The field
  \<open>read_error\<close> belongs to the device, not to the stream state: it tells what the device
  answers once the characters of \<open>buf\<close> are used up, a read error when it is set and the
  end of the file otherwise. A file that is a directory can be opened and answers the first
  read with an error: its \<open>buf\<close> is empty and its \<open>read_error\<close> is set. The stream buffer
  reports a read error by an exception; the extraction that meets it catches the exception
  and sets badbit, and eofbit stays as it was. A stream whose file could not be opened is
  not a value of this type: the constructor receives the opened stream as an option.
\<close>

record istream =
  buf :: string
  eofbit :: bool
  failbit :: bool
  badbit :: bool
  read_error :: bool

definition newline :: char where
  "newline = CHR 0x0A"

text \<open>
  The stream on a file that is opened: \<open>open_stream\<close> on a file that is read to its end
  without an error of the device, \<open>open_unreadable\<close> on one whose device delivers the
  characters given and then answers with a read error.
\<close>

definition open_stream :: "string \<Rightarrow> istream" where
  "open_stream content =
     \<lparr>buf = content, eofbit = False, failbit = False, badbit = False, read_error = False\<rparr>"


definition good :: "istream \<Rightarrow> bool" where
  "good s = (\<not> eofbit s \<and> \<not> failbit s \<and> \<not> badbit s)"

definition fail :: "istream \<Rightarrow> bool" where
  "fail s = (failbit s \<or> badbit s)"

text \<open>
  \<^verbatim>\<open>getline(paramfile, line)\<close>: on a stream that is not good the call only sets failbit and
  leaves the string alone. Otherwise the string is cleared and characters are moved into it
  up to the next newline, which is extracted and dropped. Reaching the end of the file sets
  eofbit, a read error sets badbit; either way failbit is set too when nothing at all was
  extracted.
\<close>

definition getline :: "istream \<Rightarrow> string \<Rightarrow> istream \<times> string" where
  "getline s str =
     (if \<not> good s then (s\<lparr>failbit := True\<rparr>, str)
      else (case dropWhile (\<lambda>c. c \<noteq> newline) (buf s) of
              [] \<Rightarrow> (if read_error s
                     then (s\<lparr>buf := [], failbit := (buf s = []), badbit := True\<rparr>, buf s)
                     else (s\<lparr>buf := [], eofbit := True, failbit := (buf s = [])\<rparr>, buf s))
            | _ # r \<Rightarrow> (s\<lparr>buf := r\<rparr>, takeWhile (\<lambda>c. c \<noteq> newline) (buf s))))"

text \<open>The white space of the classic locale, skipped in front of every token.\<close>

definition isspace :: "char \<Rightarrow> bool" where
  "isspace c = (c \<in> set [CHR 0x20, CHR 0x09, CHR 0x0A, CHR 0x0B, CHR 0x0C, CHR 0x0D])"

definition isdigit :: "char \<Rightarrow> bool" where
  "isdigit c = (c \<in> set ''0123456789'')"

text \<open>
  The sentry of a formatted extraction: it fails (setting failbit) on a stream that is not
  good, skips white space, and fails when only white space was left: with eofbit and
  failbit at the end of the file, with badbit and failbit on a read error.
\<close>

definition sentry :: "istream \<Rightarrow> istream \<times> bool" where
  "sentry s =
     (if \<not> good s then (s\<lparr>failbit := True\<rparr>, False)
      else (case dropWhile isspace (buf s) of
              [] \<Rightarrow> (if read_error s
                     then (s\<lparr>buf := [], failbit := True, badbit := True\<rparr>, False)
                     else (s\<lparr>buf := [], eofbit := True, failbit := True\<rparr>, False))
            | c # r \<Rightarrow> (s\<lparr>buf := c # r\<rparr>, True)))"

text \<open>
  \<^verbatim>\<open>paramfile >> field\<close> for a \<^verbatim>\<open>std::string\<close>: the characters up to the next white space
  replace the string; when the sentry fails the string keeps its old value. A token that
  runs up to the last character delivered ends by eofbit, or by badbit on a read error.
\<close>

definition extract_string :: "istream \<Rightarrow> string \<Rightarrow> istream \<times> string" where
  "extract_string s str =
     (case sentry s of
        (s1, False) \<Rightarrow> (s1, str)
      | (s1, True) \<Rightarrow>
          (let r = dropWhile (\<lambda>c. \<not> isspace c) (buf s1);
               tok = takeWhile (\<lambda>c. \<not> isspace c) (buf s1)
           in if r = [] \<and> read_error s1 then (s1\<lparr>buf := r, badbit := True\<rparr>, tok)
              else (s1\<lparr>buf := r, eofbit := (r = [])\<rparr>, tok)))"

text \<open>
  \<^verbatim>\<open>paramfile >> tm\<close> for an \<^verbatim>\<open>int\<close>. The number is read as a \<^verbatim>\<open>long\<close> in base ten: an
  optional sign, then digits up to the first other character. No digit gives 0 and failbit;
  a value outside \<^verbatim>\<open>long\<close>, and then outside \<^verbatim>\<open>int\<close>, is clamped with failbit set. Running
  into the end of the file sets eofbit. A read error met while the number is parsed sets
  badbit and leaves the variable as it was: the exception leaves the parser before the
  variable is assigned. The variable is \<open>None\<close> while it has never been assigned (the
  locals of the constructor are declared without initialiser); a failed sentry leaves it as
  it was.
\<close>

definition digit_value :: "char \<Rightarrow> int" where
  "digit_value c = of_char c - of_char CHR ''0''"

definition decimal :: "string \<Rightarrow> int" where
  "decimal ds = foldl (\<lambda>acc c. 10 * acc + digit_value c) 0 ds"

definition LONG_MAX :: int where "LONG_MAX = 2 ^ 63 - 1"
definition LONG_MIN :: int where "LONG_MIN = - (2 ^ 63)"
definition INT_MAX :: int where "INT_MAX = 2 ^ 31 - 1"
definition INT_MIN :: int where "INT_MIN = - (2 ^ 31)"

text \<open>The result of the number parser: the value, whether it failed, the unread rest.\<close>

definition get_long :: "string \<Rightarrow> int \<times> bool \<times> string" where
  "get_long cs =
     (let negative = (cs \<noteq> [] \<and> hd cs = CHR ''-'');
          signed = (cs \<noteq> [] \<and> (hd cs = CHR ''-'' \<or> hd cs = CHR ''+''));
          body = (if signed then tl cs else cs);
          ds = takeWhile isdigit body;
          rest = dropWhile isdigit body;
          v = (if negative then - decimal ds else decimal ds)
      in if ds = [] then (0, True, rest)
         else if v < LONG_MIN then (LONG_MIN, True, rest)
         else if LONG_MAX < v then (LONG_MAX, True, rest)
         else (v, False, rest))"

definition extract_int :: "istream \<Rightarrow> int option \<Rightarrow> istream \<times> int option" where
  "extract_int s n =
     (case sentry s of
        (s1, False) \<Rightarrow> (s1, n)
      | (s1, True) \<Rightarrow>
          (case get_long (buf s1) of (l, bad, rest) \<Rightarrow>
             (let s2 = s1\<lparr>buf := rest, eofbit := (rest = [])\<rparr>
              in if rest = [] \<and> read_error s1 then (s1\<lparr>buf := rest, badbit := True\<rparr>, n)
                 else if l < INT_MIN then (s2\<lparr>failbit := True\<rparr>, Some INT_MIN)
                 else if INT_MAX < l then (s2\<lparr>failbit := True\<rparr>, Some INT_MAX)
                 else (s2\<lparr>failbit := bad\<rparr>, Some l))))"


section \<open>Output units on the heap\<close>

text \<open>
  Modelled from the spec: class \<^verbatim>\<open>outputunit\<close> (\<^verbatim>\<open>outputunit.hpp\<close>, \<^verbatim>\<open>outputunit.cpp\<close>) is
  not part of the sources at hand; only its uses in \<^verbatim>\<open>outputlist.cpp\<close> are. A unit holds
  the field selection and the time and space windows it was constructed with, the link to
  the next unit of the singly linked list, and the state of its output file, which is
  opened by the first write and closed at shutdown. The \<^verbatim>\<open>domain\<close> argument is only handed
  on to the unit and is left out of the stored arguments.

  The units live in a heap, a map from addresses to units. A pointer is \<open>None\<close>, the null
  pointer, or \<open>Some a\<close> for an address \<open>a\<close>; \<^verbatim>\<open>new\<close> hands out the addresses 0, 1, 2 and
  so on (the address 0 is an address like the others, not the null pointer), and
  \<^verbatim>\<open>delete\<close> runs the destructor of the unit and then takes the unit out of the heap.
\<close>

type_synonym addr = nat
type_synonym ptr = "addr option"

record unit_args =
  a_probname :: string
  a_datadir :: string
  a_nt :: int
  a_tm :: "int option"
  a_tp :: "int option"
  a_ts :: "int option"
  a_xm :: "int option list"
  a_xp :: "int option list"
  a_xs :: "int option list"
  a_field :: string
  a_name :: string

record outputunit =
  args :: unit_args
  next_unit :: ptr
  file_open :: bool

type_synonym heap = "addr \<Rightarrow> outputunit option"

datatype error =
  Abort string
| Invalid_pointer ptr

text \<open>
  \<open>Abort msg\<close>: \<open>msg\<close> was written to \<^verbatim>\<open>cerr\<close> and \<^verbatim>\<open>MPI_Abort(MPI_COMM_WORLD,-1)\<close> ended
  the run on every process. \<open>Invalid_pointer p\<close>: a member was called through, or
  \<^verbatim>\<open>delete\<close> applied to, a pointer that is null or whose unit is no longer allocated.
\<close>

text \<open>
  Modelled from the spec: the constructor of \<^verbatim>\<open>outputunit\<close> is not in the sources at hand. It
  stores its arguments; the new unit has no successor and its file is not open.
\<close>

definition new_outputunit :: "unit_args \<Rightarrow> outputunit" where
  "new_outputunit a = \<lparr>args = a, next_unit = None, file_open = False\<rparr>"

text \<open>
  The two accessors of the link, called through a pointer: on the null pointer and on a
  pointer to a unit that is not allocated (any more) the call is an error.
\<close>

definition get_next_unit :: "heap \<Rightarrow> ptr \<Rightarrow> error + ptr" where
  "get_next_unit h p =
     (case p of
        None \<Rightarrow> Inl (Invalid_pointer p)
      | Some a \<Rightarrow> (case h a of None \<Rightarrow> Inl (Invalid_pointer p) | Some u \<Rightarrow> Inr (next_unit u)))"

definition set_next_unit :: "heap \<Rightarrow> ptr \<Rightarrow> ptr \<Rightarrow> error + heap" where
  "set_next_unit h p q =
     (case p of
        None \<Rightarrow> Inl (Invalid_pointer p)
      | Some a \<Rightarrow> (case h a of
                    None \<Rightarrow> Inl (Invalid_pointer p)
                  | Some u \<Rightarrow> Inr (h(a \<mapsto> u\<lparr>next_unit := q\<rparr>))))"

text \<open>
  Modelled from the spec: the members \<^verbatim>\<open>write_unit\<close> and \<^verbatim>\<open>close_file\<close> are not in the
  sources at hand. After section 6 of the specification the file of a unit is opened by
  the first write, appended to by the later ones and closed at shutdown; what is written is
  not modelled. Neither member touches the link or the arguments of the unit.
\<close>

definition write_unit :: "int \<Rightarrow> 't \<Rightarrow> 'd \<Rightarrow> outputunit \<Rightarrow> outputunit" where
  "write_unit tstep dt d u = u\<lparr>file_open := True\<rparr>"

definition close_file :: "outputunit \<Rightarrow> outputunit" where
  "close_file u = u\<lparr>file_open := False\<rparr>"

text \<open>
  Modelled from the spec: the destructor \<^verbatim>\<open>outputunit::~outputunit\<close>, which \<^verbatim>\<open>delete\<close> runs
  on a unit before the memory of the unit is freed, is not in the sources at hand. After
  section 3 of the specification a unit that is destroyed releases the file handle it owns:
  a file that is still open is closed, a file that is not open is left alone. The
  destructor touches neither the link nor the arguments of the unit.
\<close>

definition destroy_outputunit :: "outputunit \<Rightarrow> outputunit" where
  "destroy_outputunit u = u\<lparr>file_open := False\<rparr>"

section \<open>The constructor\<close>

text \<open>
  The frame of \<^verbatim>\<open>outputlist::outputlist\<close>: its parameters, its locals, the member
  \<open>rootunit\<close>, the heap and the next address \<^verbatim>\<open>new\<close> hands out. \<open>cunit\<close> starts as a copy
  of the null \<open>rootunit\<close>; \<open>nunit\<close> is declared without a value and is assigned before
  its first use. The locals \<open>tm\<close>, \<open>tp\<close>, \<open>ts\<close> and the elements of the arrays \<open>xm\<close>, \<open>xp\<close>,
  \<open>xs\<close> are declared without a value too: they are \<open>None\<close> until an extraction assigns
  them. The arrays have three elements throughout, so the indices 0, 1 and 2 of the loop
  are in range.
\<close>

record frame =
  probname :: string
  datadir :: string
  nt :: int
  paramfile :: istream
  line :: string
  name :: string
  field :: string
  tm :: "int option"
  tp :: "int option"
  ts :: "int option"
  xm :: "int option list"
  xp :: "int option list"
  xs :: "int option list"
  rootunit :: ptr
  cunit :: ptr
  nunit :: ptr
  heap :: heap
  fresh :: addr

definition marker :: string where
  "marker = ''[fdfault.outputlist]''"

definition init_frame :: "string \<Rightarrow> string \<Rightarrow> int \<Rightarrow> istream \<Rightarrow> frame" where
  "init_frame pn dd n f =
     \<lparr>probname = pn, datadir = dd, nt = n, paramfile = f, line = [], name = [], field = [],
      tm = None, tp = None, ts = None,
      xm = [None, None, None], xp = [None, None, None], xs = [None, None, None],
      rootunit = None, cunit = None, nunit = None, heap = Map.empty, fresh = 0\<rparr>"

text \<open>Lines 30 to 34: scan to the start of the output list.\<close>

function scan_marker :: "frame \<Rightarrow> frame" where
  "scan_marker s =
     (case getline (paramfile s) (line s) of (f, l) \<Rightarrow>
        (let s1 = s\<lparr>paramfile := f, line := l\<rparr>
         in if fail f then s1
            else if l = marker then s1
            else scan_marker s1))"
  by pat_completeness auto
termination
proof (relation "measure (\<lambda>s. length (buf (paramfile s)))")
  show "wf (measure (\<lambda>s. length (buf (paramfile s))))"
    by simp
next
  fix s s1 :: frame and f l
  assume g: "(f, l) = getline (paramfile s) (line s)"
    and s1: "s1 = s\<lparr>paramfile := f, line := l\<rparr>"
    and nf: "\<not> fail f"
  have "length (dropWhile (\<lambda>c. c \<noteq> newline) (buf (paramfile s))) \<le> length (buf (paramfile s))"
    by (rule length_dropWhile_le)
  with g nf have "length (buf f) < length (buf (paramfile s))"
    by (auto simp: getline_def fail_def split: if_splits list.splits)
  with s1 show "(s1, s) \<in> measure (\<lambda>s. length (buf (paramfile s)))"
    by simp
qed

text \<open>
  Lines 45 to 56, statement by statement: the name, the field, the time window, the three
  space windows (lines 50 to 54, \<open>read_window\<close> being the body of the loop), and the rest
  of the last line.
\<close>

definition read_name :: "frame \<Rightarrow> frame" where
  "read_name s = s\<lparr>name := line s\<rparr>"

definition read_field :: "frame \<Rightarrow> frame" where
  "read_field s =
     (case extract_string (paramfile s) (field s) of (f, v) \<Rightarrow> s\<lparr>paramfile := f, field := v\<rparr>)"

definition read_tm :: "frame \<Rightarrow> frame" where
  "read_tm s = (case extract_int (paramfile s) (tm s) of (f, v) \<Rightarrow> s\<lparr>paramfile := f, tm := v\<rparr>)"

definition read_tp :: "frame \<Rightarrow> frame" where
  "read_tp s = (case extract_int (paramfile s) (tp s) of (f, v) \<Rightarrow> s\<lparr>paramfile := f, tp := v\<rparr>)"

definition read_ts :: "frame \<Rightarrow> frame" where
  "read_ts s = (case extract_int (paramfile s) (ts s) of (f, v) \<Rightarrow> s\<lparr>paramfile := f, ts := v\<rparr>)"

definition read_xm :: "nat \<Rightarrow> frame \<Rightarrow> frame" where
  "read_xm i s =
     (case extract_int (paramfile s) (xm s ! i) of (f, v) \<Rightarrow>
        s\<lparr>paramfile := f, xm := (xm s)[i := v]\<rparr>)"

definition read_xp :: "nat \<Rightarrow> frame \<Rightarrow> frame" where
  "read_xp i s =
     (case extract_int (paramfile s) (xp s ! i) of (f, v) \<Rightarrow>
        s\<lparr>paramfile := f, xp := (xp s)[i := v]\<rparr>)"

definition read_xs :: "nat \<Rightarrow> frame \<Rightarrow> frame" where
  "read_xs i s =
     (case extract_int (paramfile s) (xs s ! i) of (f, v) \<Rightarrow>
        s\<lparr>paramfile := f, xs := (xs s)[i := v]\<rparr>)"

definition read_window :: "nat \<Rightarrow> frame \<Rightarrow> frame" where
  "read_window i s = read_xs i (read_xp i (read_xm i s))"

function read_windows :: "nat \<Rightarrow> frame \<Rightarrow> frame" where
  "read_windows i s = (if i < 3 then read_windows (i + 1) (read_window i s) else s)"
  by pat_completeness auto
termination
  by (relation "measure (\<lambda>(i, s). 3 - i)") auto

definition skip_newline :: "frame \<Rightarrow> frame" where
  "skip_newline s =
     (case getline (paramfile s) (line s) of (f, l) \<Rightarrow> s\<lparr>paramfile := f, line := l\<rparr>)"

definition read_item :: "frame \<Rightarrow> frame" where
  "read_item s =
     skip_newline (read_windows 0 (read_ts (read_tp (read_tm (read_field (read_name s))))))"

text \<open>Lines 58 to 65: allocate the unit and hang it onto the end of the list.\<close>

definition add_unit :: "frame \<Rightarrow> error + frame" where
  "add_unit s0 =
     (let a = \<lparr>a_probname = probname s0, a_datadir = datadir s0, a_nt = nt s0,
               a_tm = tm s0, a_tp = tp s0, a_ts = ts s0,
               a_xm = xm s0, a_xp = xp s0, a_xs = xs s0,
               a_field = field s0, a_name = name s0\<rparr>;
          s = s0\<lparr>cunit := Some (fresh s0),
                 heap := (heap s0)(fresh s0 \<mapsto> new_outputunit a),
                 fresh := Suc (fresh s0)\<rparr>
      in if rootunit s = None then
           (let s = s\<lparr>rootunit := cunit s\<rparr> in Inr (s\<lparr>nunit := rootunit s\<rparr>))
         else
           (case set_next_unit (heap s) (nunit s) (cunit s) of
              Inl e \<Rightarrow> Inl e
            | Inr h \<Rightarrow>
                (case get_next_unit h (nunit s) of
                   Inl e \<Rightarrow> Inl e
                 | Inr p \<Rightarrow> Inr (s\<lparr>heap := h, nunit := p\<rparr>))))"


text \<open>Lines 40 to 67: read output units until a blank line or until \<^verbatim>\<open>getline\<close> fails.\<close>

function read_units :: "frame \<Rightarrow> error + frame" where
  "read_units s =
     (case getline (paramfile s) (line s) of (f, l) \<Rightarrow>
        (let s1 = s\<lparr>paramfile := f, line := l\<rparr>
         in if fail f then Inr s1
            else if l = [] then Inr s1
            else (case add_unit (read_item s1) of
                    Inl e \<Rightarrow> Inl e
                  | Inr s2 \<Rightarrow> read_units s2)))"
  by pat_completeness auto
termination
proof (relation "measure (\<lambda>s. length (buf (paramfile s)))")
  show "wf (measure (\<lambda>s. length (buf (paramfile s))))"
    by simp
next
  fix s s1 s2 :: frame and f l
  assume g: "(f, l) = getline (paramfile s) (line s)"
    and s1: "s1 = s\<lparr>paramfile := f, line := l\<rparr>"
    and nf: "\<not> fail f"
    and a: "add_unit (read_item s1) = Inr s2"
  have drop: "length (dropWhile P cs) \<le> length cs" for P and cs :: string
    by (rule length_dropWhile_le)
  have line_le: "length (buf (fst (getline t str))) \<le> length (buf t)" for t str
    using drop [of "\<lambda>c. c \<noteq> newline" "buf t"]
    by (auto simp: getline_def split: list.splits)
  have sentry_le: "length (buf (fst (sentry t))) \<le> length (buf t)" for t
    using drop [of isspace "buf t"] by (auto simp: sentry_def split: list.splits)
  have string_le: "length (buf (fst (extract_string t str))) \<le> length (buf t)" for t str
    using sentry_le [of t] drop [of "\<lambda>c. \<not> isspace c" "buf (fst (sentry t))"]
    by (auto simp: extract_string_def Let_def split: prod.splits bool.splits)
  have long_le: "length (snd (snd (get_long cs))) \<le> length cs" for cs
    using drop [of isdigit cs] drop [of isdigit "tl cs"]
    by (auto simp: get_long_def Let_def)
  have int_le: "length (buf (fst (extract_int t n))) \<le> length (buf t)" for t n
    using sentry_le [of t] long_le [of "buf (fst (sentry t))"]
    by (auto simp: extract_int_def Let_def split: prod.splits bool.splits)
  have xm_le: "length (buf (paramfile (read_xm i t))) \<le> length (buf (paramfile t))" for i t
    using int_le [of "paramfile t" "xm t ! i"] by (auto simp: read_xm_def split: prod.splits)
  have xp_le: "length (buf (paramfile (read_xp i t))) \<le> length (buf (paramfile t))" for i t
    using int_le [of "paramfile t" "xp t ! i"] by (auto simp: read_xp_def split: prod.splits)
  have xs_le: "length (buf (paramfile (read_xs i t))) \<le> length (buf (paramfile t))" for i t
    using int_le [of "paramfile t" "xs t ! i"] by (auto simp: read_xs_def split: prod.splits)
  have window_le: "length (buf (paramfile (read_window i t))) \<le> length (buf (paramfile t))"
    for i t
    unfolding read_window_def
    using xs_le [of i "read_xp i (read_xm i t)"] xp_le [of i "read_xm i t"] xm_le [of i t]
    by linarith
  have windows_le: "length (buf (paramfile (read_windows i t))) \<le> length (buf (paramfile t))"
    for i t
  proof (induction i t rule: read_windows.induct)
    case (1 i t)
    show ?case
    proof (cases "i < 3")
      case False
      then show ?thesis by simp
    next
      case True
      have "read_windows i t = read_windows (i + 1) (read_window i t)"
        using True by (subst read_windows.simps) simp
      with "1.IH" [OF True] window_le [of i t] show ?thesis
        by simp
    qed
  qed
  have field_le: "length (buf (paramfile (read_field t))) \<le> length (buf (paramfile t))" for t
    using string_le [of "paramfile t" "field t"] by (auto simp: read_field_def split: prod.splits)
  have tm_le: "length (buf (paramfile (read_tm t))) \<le> length (buf (paramfile t))" for t
    using int_le [of "paramfile t" "tm t"] by (auto simp: read_tm_def split: prod.splits)
  have tp_le: "length (buf (paramfile (read_tp t))) \<le> length (buf (paramfile t))" for t
    using int_le [of "paramfile t" "tp t"] by (auto simp: read_tp_def split: prod.splits)
  have ts_le: "length (buf (paramfile (read_ts t))) \<le> length (buf (paramfile t))" for t
    using int_le [of "paramfile t" "ts t"] by (auto simp: read_ts_def split: prod.splits)
  have skip_le: "length (buf (paramfile (skip_newline t))) \<le> length (buf (paramfile t))" for t
    using line_le [of "paramfile t" "line t"] by (auto simp: skip_newline_def split: prod.splits)
  have item_le: "length (buf (paramfile (read_item t))) \<le> length (buf (paramfile t))" for t
  proof -
    let ?t1 = "read_field (read_name t)"
    let ?t2 = "read_tm ?t1"
    let ?t3 = "read_tp ?t2"
    let ?t4 = "read_ts ?t3"
    let ?t5 = "read_windows 0 ?t4"
    have "length (buf (paramfile (read_name t))) = length (buf (paramfile t))"
      by (simp add: read_name_def)
    with field_le [of "read_name t"] tm_le [of ?t1] tp_le [of ?t2] ts_le [of ?t3]
      windows_le [of 0 ?t4] skip_le [of ?t5]
    show ?thesis
      unfolding read_item_def by linarith
  qed
  have add_same: "paramfile s2 = paramfile (read_item s1)"
    using a by (auto simp: add_unit_def Let_def split: if_splits sum.splits)
  have "length (dropWhile (\<lambda>c. c \<noteq> newline) (buf (paramfile s))) \<le> length (buf (paramfile s))"
    by (rule length_dropWhile_le)
  with g nf have "length (buf f) < length (buf (paramfile s))"
    by (auto simp: getline_def fail_def split: if_splits list.splits)
  with item_le [of s1] add_same s1
  show "(s2, s) \<in> measure (\<lambda>s. length (buf (paramfile s)))"
    by simp
qed

text \<open>
  Lines 11 to 75. The argument \<open>file\<close> is the stream on the file called \<^verbatim>\<open>filename\<close> as
  line 27 opens it, or \<open>None\<close> when the file cannot be opened (\<^verbatim>\<open>is_open()\<close> is false). The
  result is the frame on return (its \<open>rootunit\<close> and \<open>heap\<close> are the list constructed), or
  the error that ended the run: \<^verbatim>\<open>MPI_Abort\<close> does not return. Closing the file in line 73
  has no effect on the result.
\<close>

definition outputlist_stream ::
  "istream option \<Rightarrow> string \<Rightarrow> string \<Rightarrow> int \<Rightarrow> error + frame" where
  "outputlist_stream file pn dd n =
     (case file of
        Some f \<Rightarrow>
          (let s = scan_marker (init_frame pn dd n f)
           in if eofbit (paramfile s)
              then Inl (Abort ''Error reading outputlist from input file\<newline>'')
              else read_units s)
      | None \<Rightarrow> Inl (Abort ''Error opening input file in outputlist.cpp\<newline>''))"

text \<open>
  The constructor on a file that is read without an error of the device: here the argument
  is the content of the file, or \<open>None\<close> when the file cannot be opened.
\<close>

definition outputlist :: "string option \<Rightarrow> string \<Rightarrow> string \<Rightarrow> int \<Rightarrow> error + frame" where
  "outputlist file pn dd n = outputlist_stream (map_option open_stream file) pn dd n"


section \<open>Traversals of the list\<close>

text \<open>
  The three loops that walk the list follow \<open>next_unit\<close> until they meet the null pointer,
  so on a heap whose links form a cycle they do not return: they are partial functions, and
  \<open>None\<close> is the run that never ends. Each returns the heap it leaves and the calls it made
  on the units, in the order it made them.
\<close>

datatype ('t, 'd) write_call = Write_unit addr int 't 'd

datatype teardown_call = Close_file addr | Delete addr bool

text \<open>
  \<open>Delete a b\<close> is \<^verbatim>\<open>delete\<close> applied to the unit at \<open>a\<close>: the destructor of the unit has
  run and the memory of the unit is freed; \<open>b\<close> tells whether the output file of the unit
  was still open at the moment the memory was freed.
\<close>

text \<open>Lines 89 to 101.\<close>

partial_function (option) write_loop ::
  "int \<Rightarrow> 't \<Rightarrow> 'd \<Rightarrow> heap \<Rightarrow> ptr \<Rightarrow> ('t, 'd) write_call list
     \<Rightarrow> (error + heap \<times> ('t, 'd) write_call list) option" where
  "write_loop tstep dt d h cu tr =
     (case cu of
        None \<Rightarrow> Some (Inr (h, tr))
      | Some a \<Rightarrow>
          (case h a of
             None \<Rightarrow> Some (Inl (Invalid_pointer cu))
           | Some u \<Rightarrow>
               (let h1 = h(a \<mapsto> write_unit tstep dt d u)
                in case get_next_unit h1 cu of
                     Inl e \<Rightarrow> Some (Inl e)
                   | Inr p \<Rightarrow> write_loop tstep dt d h1 p (tr @ [Write_unit a tstep dt d]))))"

definition write_list ::
  "heap \<Rightarrow> ptr \<Rightarrow> int \<Rightarrow> 't \<Rightarrow> 'd \<Rightarrow> (error + heap \<times> ('t, 'd) write_call list) option" where
  "write_list h rt tstep dt d = write_loop tstep dt d h rt []"

text \<open>Lines 103 to 114.\<close>

partial_function (option) close_loop ::
  "heap \<Rightarrow> ptr \<Rightarrow> teardown_call list \<Rightarrow> (error + heap \<times> teardown_call list) option" where
  "close_loop h cu tr =
     (case cu of
        None \<Rightarrow> Some (Inr (h, tr))
      | Some a \<Rightarrow>
          (case h a of
             None \<Rightarrow> Some (Inl (Invalid_pointer cu))
           | Some u \<Rightarrow>
               (let h1 = h(a \<mapsto> close_file u)
                in case get_next_unit h1 cu of
                     Inl e \<Rightarrow> Some (Inl e)
                   | Inr p \<Rightarrow> close_loop h1 p (tr @ [Close_file a]))))"

definition close_list :: "heap \<Rightarrow> ptr \<Rightarrow> (error + heap \<times> teardown_call list) option" where
  "close_list h rt = close_loop h rt []"

text \<open>
  Lines 77 to 87: the destructor reads the link of the unit before it deletes the unit
  (\<open>ou\<close> and \<open>cu\<close> are the locals \<^verbatim>\<open>ounit\<close> and \<^verbatim>\<open>cunit\<close>). \<^verbatim>\<open>delete ounit\<close> in line 84
  runs the destructor of the unit, \<open>destroy_outputunit\<close>, and then frees the unit.
\<close>

partial_function (option) delete_loop ::
  "heap \<Rightarrow> ptr \<Rightarrow> ptr \<Rightarrow> teardown_call list \<Rightarrow> (error + heap \<times> teardown_call list) option"
  where
  "delete_loop h ou cu tr =
     (case ou of
        None \<Rightarrow> Some (Inr (h, tr))
      | Some a \<Rightarrow>
          (case get_next_unit h cu of
             Inl e \<Rightarrow> Some (Inl e)
           | Inr p \<Rightarrow>
               (case h a of
                  None \<Rightarrow> Some (Inl (Invalid_pointer ou))
                | Some u \<Rightarrow>
                    (let u1 = destroy_outputunit u
                     in delete_loop (h(a := None)) p p (tr @ [Delete a (file_open u1)])))))"

definition destructor :: "heap \<Rightarrow> ptr \<Rightarrow> (error + heap \<times> teardown_call list) option" where
  "destructor h rt = delete_loop h rt rt []"


section \<open>Input files and lists, as the specification speaks of them\<close>


definition unlines :: "string list \<Rightarrow> string" where
  "unlines ls = concat (map (\<lambda>l. l @ [newline]) ls)"

text \<open>Decimal notation, as an input file writes a number.\<close>

definition digit_char :: "nat \<Rightarrow> char" where
  "digit_char n = ''0123456789'' ! n"

fun show_nat :: "nat \<Rightarrow> string" where
  "show_nat n = (if n < 10 then [digit_char n] else show_nat (n div 10) @ [digit_char (n mod 10)])"

definition show_int :: "int \<Rightarrow> string" where
  "show_int i = (if i < 0 then CHR ''-'' # show_nat (nat (- i)) else show_nat (nat i))"

text \<open>
  A declaration of an output unit: the name on a line of its own, then the field and the
  twelve numbers of the time window and the three space windows, each token with the white
  space in front of it (which may run over several lines), then what is left of the last
  line. The numbers are values of type \<^verbatim>\<open>int\<close>.
\<close>

type_synonym number = "string \<times> int"

record window =
  w_start :: number
  w_stop :: number
  w_stride :: number

record decl =
  d_name :: string
  d_lead :: string
  d_field :: string
  d_time :: window
  d_space0 :: window
  d_space1 :: window
  d_space2 :: window
  d_trail :: string

definition render_number :: "number \<Rightarrow> string" where
  "render_number p = fst p @ show_int (snd p)"

definition render_window :: "window \<Rightarrow> string" where
  "render_window w = render_number (w_start w) @ render_number (w_stop w) @ render_number (w_stride w)"

definition render_decl :: "decl \<Rightarrow> string" where
  "render_decl d =
     d_name d @ [newline] @ d_lead d @ d_field d @ render_window (d_time d) @
     render_window (d_space0 d) @ render_window (d_space1 d) @ render_window (d_space2 d) @
     d_trail d @ [newline]"

definition wf_number :: "number \<Rightarrow> bool" where
  "wf_number p = (fst p \<noteq> [] \<and> list_all isspace (fst p) \<and> INT_MIN \<le> snd p \<and> snd p \<le> INT_MAX)"

definition wf_window :: "window \<Rightarrow> bool" where
  "wf_window w = (wf_number (w_start w) \<and> wf_number (w_stop w) \<and> wf_number (w_stride w))"

definition wf_decl :: "decl \<Rightarrow> bool" where
  "wf_decl d =
     (d_name d \<noteq> [] \<and> newline \<notin> set (d_name d) \<and>
      list_all isspace (d_lead d) \<and>
      d_field d \<noteq> [] \<and> list_all (\<lambda>c. \<not> isspace c) (d_field d) \<and>
      wf_window (d_time d) \<and> wf_window (d_space0 d) \<and> wf_window (d_space1 d) \<and>
      wf_window (d_space2 d) \<and>
      list_all (\<lambda>c. isspace c \<and> c \<noteq> newline) (d_trail d))"

text \<open>
  An input file with an output-list section: lines in front of the section, the marker
  line, the declarations, and the rest of the file, which a blank line starts when the
  section is terminated.
\<close>

definition input_file :: "string list \<Rightarrow> decl list \<Rightarrow> string \<Rightarrow> string" where
  "input_file front ds rest = unlines front @ marker @ [newline] @ concat (map render_decl ds) @ rest"

definition front_ok :: "string list \<Rightarrow> bool" where
  "front_ok front = list_all (\<lambda>l. l \<noteq> marker \<and> newline \<notin> set l) front"

text \<open>The arguments the unit of a declaration is to be constructed with.\<close>

definition args_of :: "string \<Rightarrow> string \<Rightarrow> int \<Rightarrow> decl \<Rightarrow> unit_args" where
  "args_of pn dd n d =
     \<lparr>a_probname = pn, a_datadir = dd, a_nt = n,
      a_tm = Some (snd (w_start (d_time d))),
      a_tp = Some (snd (w_stop (d_time d))),
      a_ts = Some (snd (w_stride (d_time d))),
      a_xm = map (\<lambda>w. Some (snd (w_start w))) [d_space0 d, d_space1 d, d_space2 d],
      a_xp = map (\<lambda>w. Some (snd (w_stop w))) [d_space0 d, d_space1 d, d_space2 d],
      a_xs = map (\<lambda>w. Some (snd (w_stride w))) [d_space0 d, d_space1 d, d_space2 d],
      a_field = d_field d, a_name = d_name d\<rparr>"

text \<open>
  \<open>chain h p as\<close>: from the pointer \<open>p\<close> the links of the heap \<open>h\<close> lead through exactly
  the units at the addresses \<open>as\<close>, in this order, to the null pointer. \<open>contents\<close> reads
  the arguments of the units at these addresses.
\<close>

fun chain :: "heap \<Rightarrow> ptr \<Rightarrow> addr list \<Rightarrow> bool" where
  "chain h p [] = (p = None)"
| "chain h p (a # as) =
     (p = Some a \<and> (case h a of None \<Rightarrow> False | Some u \<Rightarrow> chain h (next_unit u) as))"

definition contents :: "heap \<Rightarrow> addr list \<Rightarrow> unit_args option list" where
  "contents h as = map (\<lambda>a. map_option args (h a)) as"

definition files_open :: "heap \<Rightarrow> addr list \<Rightarrow> bool option list" where
  "files_open h as = map (\<lambda>a. map_option file_open (h a)) as"

text \<open>
  The heap after a member function \<open>f\<close> has been called on the units at \<open>as\<close>, and the heap
  after these units have been deleted.
\<close>

definition visit :: "(outputunit \<Rightarrow> outputunit) \<Rightarrow> addr list \<Rightarrow> heap \<Rightarrow> heap" where
  "visit f as h = (\<lambda>a. if a \<in> set as then map_option f (h a) else h a)"

definition release :: "addr list \<Rightarrow> heap \<Rightarrow> heap" where
  "release as h = (\<lambda>a. if a \<in> set as then None else h a)"

section \<open>The friction solve\<close>

text \<open>
  Modelled from the spec: \<^verbatim>\<open>friction::solve_fs\<close> is only declared in the sources at hand
  (in the class \<^verbatim>\<open>friction\<close>, with the parameters \<open>phi\<close>, \<open>eta\<close>, \<open>snc\<close>, \<open>i\<close>, \<open>j\<close>, \<open>t\<close>);
  its body is missing. After section 4.1 of the specification: \<open>phi\<close> is the magnitude of
  the elastic traction, \<open>eta\<close> the coefficient \<open>z1 z2 / (z1 + z2)\<close> of the radiation damping
  line \<open>traction = phi - eta * velocity\<close>, \<open>snc\<close> the effective normal stress, and the friction law
  gives the strength for a normal stress at a point and time. A normal stress that is zero
  or negative forces the strength to zero, and the point slips free of stress without a
  root-find; a traction below the strength leaves the point locked, also without a
  root-find; otherwise the slip velocity is solved for, in closed form as for a strength
  that does not depend on the slip velocity. The result holds the slip velocity \<open>bc_v\<close>,
  the shear traction \<open>bc_s\<close> and the branch taken. The numbers are real numbers, not the
  \<^verbatim>\<open>double\<close>s of the program.
\<close>

datatype branch = Stress_free | Locked | Root_find

record boundchar =
  bc_v :: real
  bc_s :: real
  bc_branch :: branch

type_synonym law = "real \<Rightarrow> int \<Rightarrow> int \<Rightarrow> real \<Rightarrow> real"

definition strength :: "law \<Rightarrow> real \<Rightarrow> int \<Rightarrow> int \<Rightarrow> real \<Rightarrow> real" where
  "strength f snc i j t = (if snc \<le> 0 then 0 else f snc i j t)"

definition solve_fs :: "law \<Rightarrow> real \<Rightarrow> real \<Rightarrow> real \<Rightarrow> int \<Rightarrow> int \<Rightarrow> real \<Rightarrow> boundchar" where
  "solve_fs f phi eta snc i j t =
     (let str = strength f snc i j t
      in if snc \<le> 0 then \<lparr>bc_v = phi / eta, bc_s = 0, bc_branch = Stress_free\<rparr>
         else if \<bar>phi\<bar> < str then \<lparr>bc_v = 0, bc_s = phi, bc_branch = Locked\<rparr>
         else \<lparr>bc_v = (phi - str) / eta, bc_s = str, bc_branch = Root_find\<rparr>)"

section \<open>Notions of the proofs\<close>

text \<open>A stream in good state that has the characters \<open>cs\<close> left to read.\<close>

definition stream_at :: "string \<Rightarrow> istream" where
  "stream_at cs =
     \<lparr>buf = cs, eofbit = False, failbit = False, badbit = False, read_error = False\<rparr>"

text \<open>A text in front of which the digits of a number end.\<close>

definition stop :: "string \<Rightarrow> bool" where
  "stop cs = (cs \<noteq> [] \<and> \<not> isdigit (hd cs))"

text \<open>
  The invariant of the loop that reads the units: the units allocated so far form the list,
  \<open>nunit\<close> points to its last unit, no unit lives at or above the next address to hand out,
  and the three arrays have their three elements. \<open>current_args\<close> are the arguments the
  constructor of the next unit is called with.
\<close>

definition list_inv :: "frame \<Rightarrow> addr list \<Rightarrow> bool" where
  "list_inv t as =
     (chain (heap t) (rootunit t) as \<and> (as = [] \<or> nunit t = Some (last as)) \<and>
      (\<forall>a. fresh t \<le> a \<longrightarrow> heap t a = None) \<and>
      length (xm t) = 3 \<and> length (xp t) = 3 \<and> length (xs t) = 3)"

definition current_args :: "frame \<Rightarrow> unit_args" where
  "current_args t =
     \<lparr>a_probname = probname t, a_datadir = datadir t, a_nt = nt t,
      a_tm = tm t, a_tp = tp t, a_ts = ts t, a_xm = xm t, a_xp = xp t, a_xs = xs t,
      a_field = field t, a_name = name t\<rparr>"

section \<open>A sample input\<close>

text \<open>
  Two declarations as input files write them, the first with its windows on lines of
  their own, the second on one line, and two lines that stand in front of the output list.
\<close>

definition body_wave :: decl where
  "body_wave =
     \<lparr>d_name = ''vxbody'', d_lead = [], d_field = ''vx'',
      d_time = \<lparr>w_start = ([newline], 0), w_stop = ('' '', 1000), w_stride = ('' '', 10)\<rparr>,
      d_space0 = \<lparr>w_start = ([newline], 0), w_stop = ('' '', 200), w_stride = ('' '', 2)\<rparr>,
      d_space1 = \<lparr>w_start = ([newline], 0), w_stop = ('' '', 100), w_stride = ('' '', 1)\<rparr>,
      d_space2 = \<lparr>w_start = ([newline], -3), w_stop = ('' '', 0), w_stride = ('' '', 1)\<rparr>,
      d_trail = []\<rparr>"

definition fault_slip :: decl where
  "fault_slip =
     \<lparr>d_name = ''fault slip'', d_lead = '' '', d_field = ''U'',
      d_time = \<lparr>w_start = ('' '', 0), w_stop = ('' '', 1000), w_stride = ('' '', 1)\<rparr>,
      d_space0 = \<lparr>w_start = ('' '', 100), w_stop = ('' '', 100), w_stride = ('' '', 1)\<rparr>,
      d_space1 = \<lparr>w_start = ('' '', 0), w_stop = ('' '', 100), w_stride = ('' '', 5)\<rparr>,
      d_space2 = \<lparr>w_start = ('' '', 0), w_stop = ('' '', 0), w_stride = ('' '', 1)\<rparr>,
      d_trail = '' ''\<rparr>"

definition sample_front :: "string list" where
  "sample_front = [''[fdfault.problem]'', ''name = test'']"

declare scan_marker.simps [simp del] read_units.simps [simp del] read_windows.simps [simp del]
declare show_nat.simps [simp del]
declare write_loop.simps [code] close_loop.simps [code] delete_loop.simps [code]

section \<open>Reading lines and tokens\<close>

lemma until_newline:
  "newline \<notin> set l \<Longrightarrow> takeWhile (\<lambda>c. c \<noteq> newline) (l @ newline # r) = l"
  "newline \<notin> set l \<Longrightarrow> dropWhile (\<lambda>c. c \<noteq> newline) (l @ newline # r) = newline # r"
  by (induction l) auto

lemma getline_line:
  "newline \<notin> set l \<Longrightarrow> getline (stream_at (l @ newline # r)) str = (stream_at r, l)"
  by (simp add: getline_def stream_at_def good_def until_newline)

lemma getline_blank: "getline (stream_at (newline # r)) str = (stream_at r, [])"
  by (simp add: getline_def stream_at_def good_def)

lemma getline_end:
  "getline (stream_at []) str =
     (\<lparr>buf = [], eofbit = True, failbit = True, badbit = False, read_error = False\<rparr>, [])"
  by (simp add: getline_def stream_at_def good_def)

lemma below_ten: "n < 10 \<Longrightarrow> n \<in> {0, 1, 2, 3, 4, 5, 6, 7, 8, 9 :: nat}"
  by auto

lemma digit_not_space: "isdigit c \<Longrightarrow> \<not> isspace c"
  by (auto simp: isdigit_def isspace_def)

lemma isdigit_digit_char: "n < 10 \<Longrightarrow> isdigit (digit_char n)"
  using below_ten [of n] by (auto simp: isdigit_def digit_char_def)

lemma digit_value_digit_char: "n < 10 \<Longrightarrow> digit_value (digit_char n) = int n"
  using below_ten [of n] by (auto simp: digit_value_def digit_char_def)

lemma show_nat_digits: "list_all isdigit (show_nat n) \<and> show_nat n \<noteq> []"
proof (induction n rule: show_nat.induct)
  case (1 n)
  show ?case
  proof (cases "n < 10")
    case True
    then show ?thesis by (subst show_nat.simps, subst (2) show_nat.simps) (simp add: isdigit_digit_char)
  next
    case False
    with 1 show ?thesis
      by (subst show_nat.simps, subst (2) show_nat.simps) (simp add: isdigit_digit_char)
  qed
qed

lemma decimal_snoc: "decimal (ds @ [c]) = 10 * decimal ds + digit_value c"
  by (simp add: decimal_def)

lemma decimal_show_nat: "decimal (show_nat n) = int n"
proof (induction n rule: show_nat.induct)
  case (1 n)
  show ?case
  proof (cases "n < 10")
    case True
    then show ?thesis
      by (subst show_nat.simps) (simp add: decimal_def digit_value_digit_char)
  next
    case False
    then have "decimal (show_nat n) = 10 * decimal (show_nat (n div 10)) + int (n mod 10)"
      by (subst show_nat.simps) (simp add: decimal_snoc digit_value_digit_char)
    with 1 False show ?thesis
      by (simp add: zmod_int zdiv_int)
  qed
qed


lemma span_all:
  "list_all P l \<Longrightarrow> r = [] \<or> \<not> P (hd r) \<Longrightarrow> takeWhile P (l @ r) = l"
  "list_all P l \<Longrightarrow> r = [] \<or> \<not> P (hd r) \<Longrightarrow> dropWhile P (l @ r) = r"
  by (induction l) (cases r; auto)+

lemma digit_not_sign: "isdigit c \<Longrightarrow> c \<noteq> CHR ''-'' \<and> c \<noteq> CHR ''+''"
  by (auto simp: isdigit_def)

lemma hd_show_nat: "isdigit (hd (show_nat n))"
  using show_nat_digits [of n] by (cases "show_nat n") auto

lemma get_long_show_int:
  assumes "LONG_MIN \<le> n" "n \<le> LONG_MAX" "r = [] \<or> \<not> isdigit (hd r)"
  shows "get_long (show_int n @ r) = (n, False, r)"
proof (cases "n < 0")
  case True
  have "takeWhile isdigit (show_nat (nat (- n)) @ r) = show_nat (nat (- n))"
    and "dropWhile isdigit (show_nat (nat (- n)) @ r) = r"
    using show_nat_digits [of "nat (- n)"] assms(3) by (simp_all add: span_all)
  with True assms(1,2) show ?thesis
    using show_nat_digits [of "nat (- n)"]
    by (simp add: get_long_def show_int_def decimal_show_nat)
next
  case False
  have sp: "takeWhile isdigit (show_nat (nat n) @ r) = show_nat (nat n)"
    "dropWhile isdigit (show_nat (nat n) @ r) = r"
    using show_nat_digits [of "nat n"] assms(3) by (simp_all add: span_all)
  have hd: "hd (show_nat (nat n) @ r) = hd (show_nat (nat n))"
    using show_nat_digits [of "nat n"] by simp
  have "hd (show_nat (nat n) @ r) \<noteq> CHR ''-''" "hd (show_nat (nat n) @ r) \<noteq> CHR ''+''"
    using digit_not_sign [OF hd_show_nat [of "nat n"]] hd by simp_all
  with False assms(1,2) sp show ?thesis
    using show_nat_digits [of "nat n"]
    by (simp add: get_long_def show_int_def decimal_show_nat)
qed

lemma hd_show_int_not_space: "show_int n \<noteq> [] \<and> \<not> isspace (hd (show_int n))"
  using hd_show_nat [of "nat n"] show_nat_digits [of "nat n"] digit_not_space
  by (auto simp: show_int_def isspace_def)

lemma sentry_at:
  "list_all isspace sep \<Longrightarrow> tok \<noteq> [] \<Longrightarrow> \<not> isspace (hd tok) \<Longrightarrow>
   sentry (stream_at (sep @ tok @ r)) = (stream_at (tok @ r), True)"
proof -
  assume a: "list_all isspace sep" "tok \<noteq> []" "\<not> isspace (hd tok)"
  then have "dropWhile isspace (sep @ tok @ r) = tok @ r"
    by (simp add: span_all)
  with a(2) show ?thesis
    by (cases tok) (simp_all add: sentry_def stream_at_def good_def)
qed

lemma extract_int_at:
  assumes "list_all isspace sep" "INT_MIN \<le> n" "n \<le> INT_MAX" "stop r"
  shows "extract_int (stream_at (sep @ show_int n @ r)) n0 = (stream_at r, Some n)"
proof -
  have "LONG_MIN \<le> n" "n \<le> LONG_MAX"
    using assms(2,3) by (simp_all add: LONG_MIN_def LONG_MAX_def INT_MIN_def INT_MAX_def)
  then have "get_long (show_int n @ r) = (n, False, r)"
    using assms(4) by (simp add: get_long_show_int stop_def)
  moreover have "sentry (stream_at (sep @ show_int n @ r)) = (stream_at (show_int n @ r), True)"
    using assms(1) hd_show_int_not_space [of n] by (simp add: sentry_at)
  ultimately show ?thesis
    using assms(2,3,4) by (simp add: extract_int_def stream_at_def stop_def)
qed

lemma extract_string_at:
  assumes "list_all isspace lead" "tok \<noteq> []" "list_all (\<lambda>c. \<not> isspace c) tok"
    "r \<noteq> []" "isspace (hd r)"
  shows "extract_string (stream_at (lead @ tok @ r)) str = (stream_at r, tok)"
proof -
  have "\<not> isspace (hd tok)"
    using assms(2,3) by (cases tok) simp_all
  then have "sentry (stream_at (lead @ tok @ r)) = (stream_at (tok @ r), True)"
    using assms(1,2) by (simp add: sentry_at)
  moreover have "takeWhile (\<lambda>c. \<not> isspace c) (tok @ r) = tok"
    "dropWhile (\<lambda>c. \<not> isspace c) (tok @ r) = r"
    using assms(3,5) by (simp_all add: span_all)
  ultimately show ?thesis
    using assms(4) by (simp add: extract_string_def stream_at_def)
qed

lemma stop_space: "sep \<noteq> [] \<Longrightarrow> list_all isspace sep \<Longrightarrow> stop (sep @ r)"
  using digit_not_space by (cases sep) (auto simp: stop_def)

lemma stop_trail: "list_all (\<lambda>c. isspace c \<and> c \<noteq> newline) trail \<Longrightarrow> stop (trail @ newline # r)"
  using digit_not_space by (cases trail) (auto simp: stop_def isdigit_def newline_def)

lemma update3: "length l = 3 \<Longrightarrow> l[0 := a, Suc 0 := b, Suc (Suc 0) := c] = [a, b, c]"
  by (cases l; cases "tl l"; cases "tl (tl l)") (auto simp: numeral_eq_Suc)

lemma stop_number: "wf_number p \<Longrightarrow> stop (render_number p @ r)"
  by (simp add: wf_number_def render_number_def stop_space)

lemma stop_window: "wf_window w \<Longrightarrow> stop (render_window w @ r)"
  by (simp add: wf_window_def render_window_def stop_number)

lemma extract_number:
  "wf_number p \<Longrightarrow> stop r \<Longrightarrow> extract_int (stream_at (render_number p @ r)) n0 = (stream_at r, Some (snd p))"
  by (simp add: wf_number_def render_number_def extract_int_at)

lemma read_tm_at:
  "wf_number p \<Longrightarrow> stop r \<Longrightarrow> paramfile t = stream_at (render_number p @ r) \<Longrightarrow>
   read_tm t = t\<lparr>paramfile := stream_at r, tm := Some (snd p)\<rparr>"
  by (simp add: read_tm_def extract_number)

lemma read_tp_at:
  "wf_number p \<Longrightarrow> stop r \<Longrightarrow> paramfile t = stream_at (render_number p @ r) \<Longrightarrow>
   read_tp t = t\<lparr>paramfile := stream_at r, tp := Some (snd p)\<rparr>"
  by (simp add: read_tp_def extract_number)

lemma read_ts_at:
  "wf_number p \<Longrightarrow> stop r \<Longrightarrow> paramfile t = stream_at (render_number p @ r) \<Longrightarrow>
   read_ts t = t\<lparr>paramfile := stream_at r, ts := Some (snd p)\<rparr>"
  by (simp add: read_ts_def extract_number)

lemma read_window_at:
  assumes "wf_window w" "stop r" "paramfile t = stream_at (render_window w @ r)"
  shows "read_window i t = t\<lparr>paramfile := stream_at r,
           xm := (xm t)[i := Some (snd (w_start w))],
           xp := (xp t)[i := Some (snd (w_stop w))],
           xs := (xs t)[i := Some (snd (w_stride w))]\<rparr>"
proof -
  have w: "wf_number (w_start w)" "wf_number (w_stop w)" "wf_number (w_stride w)"
    using assms(1) by (simp_all add: wf_window_def)
  have 1: "read_xm i t = t\<lparr>paramfile := stream_at (render_number (w_stop w) @ render_number (w_stride w) @ r),
       xm := (xm t)[i := Some (snd (w_start w))]\<rparr>"
    using assms(3) w by (simp add: read_xm_def render_window_def extract_number stop_number)
  have 2: "read_xp i (read_xm i t) =
      t\<lparr>paramfile := stream_at (render_number (w_stride w) @ r),
       xm := (xm t)[i := Some (snd (w_start w))], xp := (xp t)[i := Some (snd (w_stop w))]\<rparr>"
    using w by (simp add: 1 read_xp_def extract_number stop_number)
  show ?thesis
    unfolding read_window_def using w assms(2) by (simp add: 2 read_xs_def extract_number)
qed

lemma read_windows_at:
  assumes "wf_window w0" "wf_window w1" "wf_window w2" "stop r"
    and "paramfile t = stream_at (render_window w0 @ render_window w1 @ render_window w2 @ r)"
    and "length (xm t) = 3" "length (xp t) = 3" "length (xs t) = 3"
  shows "read_windows 0 t = t\<lparr>paramfile := stream_at r,
           xm := map (\<lambda>w. Some (snd (w_start w))) [w0, w1, w2],
           xp := map (\<lambda>w. Some (snd (w_stop w))) [w0, w1, w2],
           xs := map (\<lambda>w. Some (snd (w_stride w))) [w0, w1, w2]\<rparr>"
proof -
  define t1 where "t1 = read_window 0 t"
  define t2 where "t2 = read_window (Suc 0) t1"
  define t3 where "t3 = read_window (Suc (Suc 0)) t2"
  have "read_windows (Suc (Suc (Suc 0))) t3 = t3"
    by (subst read_windows.simps) simp
  then have "read_windows (Suc (Suc 0)) t2 = t3"
    by (subst read_windows.simps) (simp add: t3_def)
  then have "read_windows (Suc 0) t1 = t3"
    by (subst read_windows.simps) (simp add: t2_def)
  then have unroll: "read_windows 0 t = t3"
    by (subst read_windows.simps) (simp add: t1_def)
  have 1: "t1 = t\<lparr>paramfile := stream_at (render_window w1 @ render_window w2 @ r),
           xm := (xm t)[0 := Some (snd (w_start w0))],
           xp := (xp t)[0 := Some (snd (w_stop w0))],
           xs := (xs t)[0 := Some (snd (w_stride w0))]\<rparr>"
    unfolding t1_def by (rule read_window_at [OF assms(1) stop_window [OF assms(2)] assms(5)])
  have p1: "paramfile t1 = stream_at (render_window w1 @ render_window w2 @ r)"
    by (simp add: 1)
  have "t2 = t1\<lparr>paramfile := stream_at (render_window w2 @ r),
           xm := (xm t1)[Suc 0 := Some (snd (w_start w1))],
           xp := (xp t1)[Suc 0 := Some (snd (w_stop w1))],
           xs := (xs t1)[Suc 0 := Some (snd (w_stride w1))]\<rparr>"
    unfolding t2_def by (rule read_window_at [OF assms(2) stop_window [OF assms(3)] p1])
  then have 2: "t2 = t\<lparr>paramfile := stream_at (render_window w2 @ r),
           xm := (xm t)[0 := Some (snd (w_start w0)), Suc 0 := Some (snd (w_start w1))],
           xp := (xp t)[0 := Some (snd (w_stop w0)), Suc 0 := Some (snd (w_stop w1))],
           xs := (xs t)[0 := Some (snd (w_stride w0)), Suc 0 := Some (snd (w_stride w1))]\<rparr>"
    by (simp add: 1)
  have p2: "paramfile t2 = stream_at (render_window w2 @ r)"
    by (simp add: 2)
  have "t3 = t2\<lparr>paramfile := stream_at r,
           xm := (xm t2)[Suc (Suc 0) := Some (snd (w_start w2))],
           xp := (xp t2)[Suc (Suc 0) := Some (snd (w_stop w2))],
           xs := (xs t2)[Suc (Suc 0) := Some (snd (w_stride w2))]\<rparr>"
    unfolding t3_def by (rule read_window_at [OF assms(3) assms(4) p2])
  then have 3: "t3 = t\<lparr>paramfile := stream_at r,
           xm := (xm t)[0 := Some (snd (w_start w0)), Suc 0 := Some (snd (w_start w1)), Suc (Suc 0) := Some (snd (w_start w2))],
           xp := (xp t)[0 := Some (snd (w_stop w0)), Suc 0 := Some (snd (w_stop w1)), Suc (Suc 0) := Some (snd (w_stop w2))],
           xs := (xs t)[0 := Some (snd (w_stride w0)), Suc 0 := Some (snd (w_stride w1)), Suc (Suc 0) := Some (snd (w_stride w2))]\<rparr>"
    by (simp add: 2)
  show ?thesis
    using assms(6,7,8) by (simp add: unroll 3 update3)
qed


lemma read_item_decl:
  assumes wf: "wf_decl d"
    and at: "paramfile s0 = stream_at (d_lead d @ d_field d @ render_window (d_time d) @
       render_window (d_space0 d) @ render_window (d_space1 d) @ render_window (d_space2 d) @
       d_trail d @ newline # r)"
    and ln: "line s0 = d_name d"
    and len: "length (xm s0) = 3" "length (xp s0) = 3" "length (xs s0) = 3"
  shows "read_item s0 = s0\<lparr>paramfile := stream_at r, line := d_trail d, name := d_name d,
      field := d_field d,
      tm := Some (snd (w_start (d_time d))),
      tp := Some (snd (w_stop (d_time d))),
      ts := Some (snd (w_stride (d_time d))),
      xm := map (\<lambda>w. Some (snd (w_start w))) [d_space0 d, d_space1 d, d_space2 d],
      xp := map (\<lambda>w. Some (snd (w_stop w))) [d_space0 d, d_space1 d, d_space2 d],
      xs := map (\<lambda>w. Some (snd (w_stride w))) [d_space0 d, d_space1 d, d_space2 d]\<rparr>"
proof -
  let ?time = "d_time d"
  let ?R = "d_trail d @ newline # r"
  let ?W = "render_window (d_space0 d) @ render_window (d_space1 d) @ render_window (d_space2 d) @ ?R"
  have w: "wf_window ?time" "wf_window (d_space0 d)" "wf_window (d_space1 d)"
    "wf_window (d_space2 d)"
    using wf by (simp_all add: wf_decl_def)
  have n: "wf_number (w_start ?time)" "wf_number (w_stop ?time)" "wf_number (w_stride ?time)"
    using w(1) by (simp_all add: wf_window_def)
  have stopR: "stop ?R"
    using wf by (simp add: wf_decl_def stop_trail)
  define t1 where "t1 = read_field (read_name s0)"
  define t2 where "t2 = read_tm t1"
  define t3 where "t3 = read_tp t2"
  define t4 where "t4 = read_ts t3"
  define t5 where "t5 = read_windows 0 t4"
  have item: "read_item s0 = skip_newline t5"
    by (simp add: read_item_def t1_def t2_def t3_def t4_def t5_def)
  have "render_window ?time @ ?W \<noteq> []" "isspace (hd (render_window ?time @ ?W))"
    using n(1) by (cases "fst (w_start ?time)", simp_all add: render_window_def render_number_def wf_number_def)+
  then have "extract_string (stream_at (d_lead d @ d_field d @ render_window ?time @ ?W)) (field s0)
      = (stream_at (render_window ?time @ ?W), d_field d)"
    using wf by (intro extract_string_at) (simp_all add: wf_decl_def)
  then have 1: "t1 = s0\<lparr>name := d_name d, field := d_field d,
      paramfile := stream_at (render_number (w_start ?time) @ render_number (w_stop ?time) @
        render_number (w_stride ?time) @ ?W)\<rparr>"
    by (simp add: t1_def read_field_def read_name_def at ln render_window_def)
  have p1: "paramfile t1 = stream_at (render_number (w_start ?time) @ render_number (w_stop ?time) @
        render_number (w_stride ?time) @ ?W)"
    by (simp add: 1)
  have 2: "t2 = t1\<lparr>paramfile := stream_at (render_number (w_stop ?time) @
        render_number (w_stride ?time) @ ?W), tm := Some (snd (w_start ?time))\<rparr>"
    unfolding t2_def by (rule read_tm_at [OF n(1) stop_number [OF n(2)] p1])
  have p2: "paramfile t2 = stream_at (render_number (w_stop ?time) @ render_number (w_stride ?time) @ ?W)"
    by (simp add: 2)
  have 3: "t3 = t2\<lparr>paramfile := stream_at (render_number (w_stride ?time) @ ?W),
      tp := Some (snd (w_stop ?time))\<rparr>"
    unfolding t3_def by (rule read_tp_at [OF n(2) stop_number [OF n(3)] p2])
  have p3: "paramfile t3 = stream_at (render_number (w_stride ?time) @ ?W)"
    by (simp add: 3)
  have 4: "t4 = t3\<lparr>paramfile := stream_at ?W, ts := Some (snd (w_stride ?time))\<rparr>"
    unfolding t4_def by (rule read_ts_at [OF n(3) stop_window [OF w(2)] p3])
  have p4: "paramfile t4 = stream_at ?W"
    by (simp add: 4)
  have l4: "length (xm t4) = 3" "length (xp t4) = 3" "length (xs t4) = 3"
    using len by (simp_all add: 4 3 2 1)
  have 5: "t5 = t4\<lparr>paramfile := stream_at ?R,
           xm := map (\<lambda>w. Some (snd (w_start w))) [d_space0 d, d_space1 d, d_space2 d],
           xp := map (\<lambda>w. Some (snd (w_stop w))) [d_space0 d, d_space1 d, d_space2 d],
           xs := map (\<lambda>w. Some (snd (w_stride w))) [d_space0 d, d_space1 d, d_space2 d]\<rparr>"
    unfolding t5_def by (rule read_windows_at [OF w(2) w(3) w(4) stopR p4 l4])
  have "newline \<notin> set (d_trail d)"
    using wf by (auto simp: wf_decl_def list_all_iff)
  then have "getline (stream_at ?R) (line t5) = (stream_at r, d_trail d)"
    by (rule getline_line)
  then have "skip_newline t5 = t5\<lparr>paramfile := stream_at r, line := d_trail d\<rparr>"
    by (simp add: skip_newline_def 5)
  then show ?thesis
    by (simp add: item 5 4 3 2 1)
qed

section \<open>Lists in the heap and their traversals\<close>

lemma chain_Cons:
  "chain h p (a # as) \<longleftrightarrow> p = Some a \<and> (\<exists>u. h a = Some u \<and> chain h (next_unit u) as)"
  by (auto split: option.splits)

declare chain.simps(2) [simp del]
declare chain_Cons [simp]

lemma chain_unique: "chain h p as \<Longrightarrow> chain h p bs \<Longrightarrow> as = bs"
proof (induction as arbitrary: p bs)
  case Nil
  then show ?case by (cases bs) auto
next
  case (Cons a as)
  then show ?case by (cases bs) auto
qed

lemma chain_suffix: "chain h p (as @ b # bs) \<Longrightarrow> chain h (Some b) (b # bs)"
  by (induction as arbitrary: p) auto

lemma chain_head_fresh: "chain h p (a # as) \<Longrightarrow> a \<notin> set as"
proof
  assume c: "chain h p (a # as)" and "a \<in> set as"
  then obtain bs cs where as: "as = bs @ a # cs"
    by (auto simp: in_set_conv_decomp)
  have "chain h (Some a) (a # as)"
    using c by simp
  moreover have "chain h (Some a) (a # cs)"
    using c chain_suffix [of h p "a # bs" a cs] by (simp add: as)
  ultimately have "a # as = a # cs"
    by (rule chain_unique)
  with as show False by simp
qed

lemma chain_distinct: "chain h p as \<Longrightarrow> distinct as"
proof (induction as arbitrary: p)
  case Nil
  then show ?case by simp
next
  case (Cons a as)
  from Cons.prems have "a \<notin> set as" by (rule chain_head_fresh)
  moreover from Cons.prems obtain u :: outputunit where "chain h (next_unit u) as"
    by auto
  ultimately show ?case using Cons.IH by simp
qed

lemma chain_live: "chain h p as \<Longrightarrow> a \<in> set as \<Longrightarrow> h a \<noteq> None"
  by (induction as arbitrary: p) auto

lemma chain_cong:
  "(\<And>a. a \<in> set as \<Longrightarrow> map_option next_unit (h' a) = map_option next_unit (h a)) \<Longrightarrow>
   chain h' p as = chain h p as"
proof (induction as arbitrary: p)
  case Nil
  then show ?case by simp
next
  case (Cons a as)
  have "map_option next_unit (h' a) = map_option next_unit (h a)"
    using Cons.prems by simp
  moreover have "chain h' q as = chain h q as" for q
    using Cons.prems by (intro Cons.IH) simp
  ultimately show ?case
    by (cases "h a"; cases "h' a") auto
qed

lemma write_loop_chain:
  "chain h p as \<Longrightarrow>
   write_loop tstep dt d h p tr =
     Some (Inr (visit (write_unit tstep dt d) as h, tr @ map (\<lambda>a. Write_unit a tstep dt d) as))"
proof (induction as arbitrary: h p tr)
  case Nil
  then show ?case
    by (subst write_loop.simps) (simp add: visit_def)
next
  case (Cons a as)
  then obtain u where p: "p = Some a" and u: "h a = Some u" and c: "chain h (next_unit u) as"
    by (auto simp: chain_Cons)
  let ?h = "h(a \<mapsto> write_unit tstep dt d u)"
  have fresh: "a \<notin> set as"
    using Cons.prems by (rule chain_head_fresh)
  then have "chain ?h (next_unit u) as"
    using c by (subst chain_cong [of as ?h h]) auto
  then have "write_loop tstep dt d ?h (next_unit u) (tr @ [Write_unit a tstep dt d]) =
      Some (Inr (visit (write_unit tstep dt d) as ?h,
        (tr @ [Write_unit a tstep dt d]) @ map (\<lambda>a. Write_unit a tstep dt d) as))"
    by (rule Cons.IH)
  moreover have "visit (write_unit tstep dt d) as ?h = visit (write_unit tstep dt d) (a # as) h"
    using fresh u by (auto simp: visit_def)
  ultimately show ?case
    using p u by (subst write_loop.simps) (simp add: get_next_unit_def write_unit_def)
qed

lemma close_loop_chain:
  "chain h p as \<Longrightarrow>
   close_loop h p tr = Some (Inr (visit close_file as h, tr @ map Close_file as))"
proof (induction as arbitrary: h p tr)
  case Nil
  then show ?case
    by (subst close_loop.simps) (simp add: visit_def)
next
  case (Cons a as)
  then obtain u where p: "p = Some a" and u: "h a = Some u" and c: "chain h (next_unit u) as"
    by (auto simp: chain_Cons)
  let ?h = "h(a \<mapsto> close_file u)"
  have fresh: "a \<notin> set as"
    using Cons.prems by (rule chain_head_fresh)
  then have "chain ?h (next_unit u) as"
    using c by (subst chain_cong [of as ?h h]) auto
  then have "close_loop ?h (next_unit u) (tr @ [Close_file a]) =
      Some (Inr (visit close_file as ?h, (tr @ [Close_file a]) @ map Close_file as))"
    by (rule Cons.IH)
  moreover have "visit close_file as ?h = visit close_file (a # as) h"
    using fresh u by (auto simp: visit_def)
  ultimately show ?case
    using p u by (subst close_loop.simps) (simp add: get_next_unit_def close_file_def)
qed


lemma chain_visit:
  "(\<And>u. next_unit (f u) = next_unit u) \<Longrightarrow> chain (visit f bs h) p as = chain h p as"
  by (rule chain_cong) (auto simp: visit_def map_option.compositionality comp_def)

lemma contents_visit:
  "(\<And>u. args (f u) = args u) \<Longrightarrow> contents (visit f bs h) as = contents h as"
  by (auto simp: contents_def visit_def map_option.compositionality comp_def)

lemma chain_visit_member:
  "chain (visit (write_unit tstep dt dmn) bs h) p as = chain h p as"
  "chain (visit close_file bs h) p as = chain h p as"
  by (rule chain_visit, simp add: write_unit_def, rule chain_visit, simp add: close_file_def)

lemma contents_visit_member:
  "contents (visit (write_unit tstep dt dmn) bs h) as = contents h as"
  "contents (visit close_file bs h) as = contents h as"
  by (rule contents_visit, simp add: write_unit_def, rule contents_visit, simp add: close_file_def)

lemma released_unit_is_invalid:
  "a \<in> set as \<Longrightarrow> get_next_unit (release as h) (Some a) = Inl (Invalid_pointer (Some a))"
  by (simp add: get_next_unit_def release_def)


section \<open>The list the constructor builds\<close>

lemma chain_snoc:
  assumes "chain h p as" "as \<noteq> []" "h (last as) = Some u" "c \<notin> set as" "next_unit n = None"
  shows "chain (h(c \<mapsto> n, last as \<mapsto> u\<lparr>next_unit := Some c\<rparr>)) p (as @ [c])"
  using assms
proof (induction as arbitrary: p)
  case Nil
  then show ?case by simp
next
  case (Cons a as)
  from Cons.prems(1) obtain ua where p: "p = Some a" and ua: "h a = Some ua"
    and c: "chain h (next_unit ua) as"
    by auto
  show ?case
  proof (cases "as = []")
    case True
    with Cons.prems p ua c show ?thesis by auto
  next
    case False
    have "a \<notin> set as"
      using Cons.prems(1) by (rule chain_head_fresh)
    then have "a \<noteq> last as"
      using False last_in_set by metis
    moreover have "chain (h(c \<mapsto> n, last as \<mapsto> u\<lparr>next_unit := Some c\<rparr>)) (next_unit ua) (as @ [c])"
      using c False Cons.prems by (intro Cons.IH) auto
    moreover have "(h(c \<mapsto> n, last as \<mapsto> u\<lparr>next_unit := Some c\<rparr>)) a = Some ua"
      using \<open>a \<noteq> last as\<close> Cons.prems(4) ua by simp
    moreover have "last (a # as) = last as"
      using False by simp
    ultimately show ?thesis
      using p by (simp only: append_Cons chain_Cons) blast
  qed
qed

lemma add_unit_appends:
  assumes "chain (heap t) (rootunit t) as" "as = [] \<or> nunit t = Some (last as)"
    "heap t (fresh t) = None"
  shows "\<exists>t'. add_unit t = Inr t' \<and> chain (heap t') (rootunit t') (as @ [fresh t]) \<and>
           nunit t' = Some (fresh t) \<and> fresh t' = Suc (fresh t) \<and>
           contents (heap t') (as @ [fresh t]) = contents (heap t) as @ [Some (current_args t)] \<and>
           files_open (heap t') (as @ [fresh t]) = files_open (heap t) as @ [Some False] \<and>
           (\<forall>a. a \<notin> set as \<longrightarrow> a \<noteq> fresh t \<longrightarrow> heap t' a = heap t a) \<and>
           t'\<lparr>heap := heap t, rootunit := rootunit t, nunit := nunit t, cunit := cunit t, fresh := fresh t\<rparr> = t"
proof (cases "as = []")
  case True
  with assms(1) have "rootunit t = None" by simp
  with True show ?thesis
    by (simp add: add_unit_def new_outputunit_def contents_def files_open_def current_args_def)
next
  case False
  then obtain a0 as0 where as: "as = a0 # as0" by (cases as) auto
  with assms(1) have root: "rootunit t = Some a0" by simp
  have n: "nunit t = Some (last as)" using False assms(2) by simp
  have "last as \<in> set as" using False by simp
  with assms(1) obtain u where u: "heap t (last as) = Some u"
    using chain_live by fastforce
  have c: "fresh t \<notin> set as"
    using assms(1,3) chain_live by fastforce
  then have neq: "last as \<noteq> fresh t"
    using \<open>last as \<in> set as\<close> by auto
  let ?n = "new_outputunit (current_args t)"
  let ?h = "(heap t)(fresh t \<mapsto> ?n, last as \<mapsto> u\<lparr>next_unit := Some (fresh t)\<rparr>)"
  have ch: "chain ?h (rootunit t) (as @ [fresh t])"
    using assms(1) False u c by (rule chain_snoc) (simp add: new_outputunit_def)
  have add: "add_unit t = Inr (t\<lparr>cunit := Some (fresh t), heap := ?h, fresh := Suc (fresh t),
      nunit := Some (fresh t)\<rparr>)"
    using root n u neq
    by (simp add: add_unit_def Let_def set_next_unit_def get_next_unit_def current_args_def)
  have same: "map_option args (?h a) = map_option args (heap t a)"
    "map_option file_open (?h a) = map_option file_open (heap t a)" if "a \<in> set as" for a
    using that c u by (auto simp: fun_upd_def)
  have "contents ?h (as @ [fresh t]) = contents (heap t) as @ [Some (current_args t)]"
    using same(1) neq by (simp add: contents_def new_outputunit_def)
  moreover have "files_open ?h (as @ [fresh t]) = files_open (heap t) as @ [Some False]"
    using same(2) neq by (simp add: files_open_def new_outputunit_def)
  ultimately show ?thesis
    using add ch \<open>last as \<in> set as\<close> by auto
qed

lemma stream_at_bits [simp]:
  "buf (stream_at cs) = cs" "\<not> eofbit (stream_at cs)" "\<not> failbit (stream_at cs)"
  "\<not> badbit (stream_at cs)" "\<not> read_error (stream_at cs)" "\<not> fail (stream_at cs)"
  by (simp_all add: stream_at_def fail_def)

lemma marker_no_newline: "newline \<notin> set marker"
  by (simp add: marker_def newline_def)

lemma scan_marker_front:
  "front_ok front \<Longrightarrow> paramfile t = stream_at (unlines front @ marker @ newline # r) \<Longrightarrow>
   scan_marker t = t\<lparr>paramfile := stream_at r, line := marker\<rparr>"
proof (induction front arbitrary: t)
  case Nil
  have "getline (stream_at (marker @ newline # r)) (line t) = (stream_at r, marker)"
    using marker_no_newline by (rule getline_line)
  with Nil show ?case
    by (subst scan_marker.simps) (simp add: unlines_def)
next
  case (Cons l ls)
  let ?r = "unlines ls @ marker @ newline # r"
  let ?t = "t\<lparr>paramfile := stream_at ?r, line := l\<rparr>"
  from Cons.prems(1) have l: "l \<noteq> marker" "newline \<notin> set l" and ls: "front_ok ls"
    by (simp_all add: front_ok_def)
  have "getline (stream_at (l @ newline # ?r)) (line t) = (stream_at ?r, l)"
    using l(2) by (rule getline_line)
  then have "scan_marker t = scan_marker ?t"
    using Cons.prems(2) l(1) by (subst scan_marker.simps) (simp add: unlines_def)
  moreover have "scan_marker ?t = ?t\<lparr>paramfile := stream_at r, line := marker\<rparr>"
    using ls by (rule Cons.IH) simp
  ultimately show ?case by simp
qed

lemma read_units_section:
  assumes "list_all wf_decl ds" "r = [] \<or> hd r = newline"
    "paramfile t = stream_at (concat (map render_decl ds) @ r)" "list_inv t as"
  shows "\<exists>t'. read_units t = Inr t' \<and> list_inv t' (as @ [fresh t..<fresh t + length ds]) \<and>
           fresh t' = fresh t + length ds \<and>
           contents (heap t') (as @ [fresh t..<fresh t + length ds]) =
             contents (heap t) as @ map (\<lambda>d. Some (args_of (probname t) (datadir t) (nt t) d)) ds \<and>
           files_open (heap t') (as @ [fresh t..<fresh t + length ds]) =
             files_open (heap t) as @ replicate (length ds) (Some False) \<and>
           (\<forall>a. a \<notin> set as \<longrightarrow> a < fresh t \<longrightarrow> heap t' a = heap t a) \<and>
           buf (paramfile t') = tl r"
  using assms
proof (induction ds arbitrary: t as)
  case Nil
  show ?case
  proof (cases r)
    case Nil
    have "getline (stream_at []) (line t) =
        (\<lparr>buf = [], eofbit = True, failbit = True, badbit = False, read_error = False\<rparr>, [])"
      by (rule getline_end)
    with Nil Nil.prems show ?thesis
      by (subst read_units.simps) (simp add: list_inv_def fail_def)
  next
    case (Cons c post)
    with Nil.prems(2) have c: "c = newline" by simp
    have "getline (stream_at (newline # post)) (line t) = (stream_at post, [])"
      by (rule getline_blank)
    with Cons c Nil.prems show ?thesis
      by (subst read_units.simps) (simp add: list_inv_def)
  qed
next
  case (Cons d ds)
  let ?R = "concat (map render_decl ds) @ r"
  let ?body = "d_lead d @ d_field d @ render_window (d_time d) @
       render_window (d_space0 d) @ render_window (d_space1 d) @ render_window (d_space2 d) @
       d_trail d @ newline # ?R"
  from Cons.prems(1) have wf: "wf_decl d" and wfs: "list_all wf_decl ds"
    by simp_all
  have nm: "d_name d \<noteq> []" "newline \<notin> set (d_name d)"
    using wf by (simp_all add: wf_decl_def)
  have inv: "chain (heap t) (rootunit t) as" "as = [] \<or> nunit t = Some (last as)"
    "\<And>a. fresh t \<le> a \<Longrightarrow> heap t a = None"
    "length (xm t) = 3" "length (xp t) = 3" "length (xs t) = 3"
    using Cons.prems(4) by (simp_all add: list_inv_def)
  have buf_eq: "concat (map render_decl (d # ds)) @ r = d_name d @ newline # ?body"
    by (simp add: render_decl_def)
  have g: "getline (paramfile t) (line t) = (stream_at ?body, d_name d)"
    unfolding Cons.prems(3) buf_eq using nm(2) by (rule getline_line)
  define t1 where "t1 = t\<lparr>paramfile := stream_at ?body, line := d_name d\<rparr>"
  define t2 where "t2 = read_item t1"
  have t2: "t2 = t1\<lparr>paramfile := stream_at ?R, line := d_trail d, name := d_name d,
      field := d_field d,
      tm := Some (snd (w_start (d_time d))),
      tp := Some (snd (w_stop (d_time d))),
      ts := Some (snd (w_stride (d_time d))),
      xm := map (\<lambda>w. Some (snd (w_start w))) [d_space0 d, d_space1 d, d_space2 d],
      xp := map (\<lambda>w. Some (snd (w_stop w))) [d_space0 d, d_space1 d, d_space2 d],
      xs := map (\<lambda>w. Some (snd (w_stride w))) [d_space0 d, d_space1 d, d_space2 d]\<rparr>"
    unfolding t2_def using wf inv(4-6) by (intro read_item_decl) (simp_all add: t1_def)
  have args: "current_args t2 = args_of (probname t) (datadir t) (nt t) d"
    by (simp add: t2 t1_def current_args_def args_of_def)
  have "chain (heap t2) (rootunit t2) as" "as = [] \<or> nunit t2 = Some (last as)"
    "heap t2 (fresh t2) = None"
    using inv(1-3) by (simp_all add: t2 t1_def)
  from add_unit_appends [OF this] obtain t3 where t3: "add_unit t2 = Inr t3"
    "chain (heap t3) (rootunit t3) (as @ [fresh t2])" "nunit t3 = Some (fresh t2)"
    "fresh t3 = Suc (fresh t2)"
    "contents (heap t3) (as @ [fresh t2]) = contents (heap t2) as @ [Some (current_args t2)]"
    "files_open (heap t3) (as @ [fresh t2]) = files_open (heap t2) as @ [Some False]"
    "\<And>a. a \<notin> set as \<Longrightarrow> a \<noteq> fresh t2 \<Longrightarrow> heap t3 a = heap t2 a"
    "t3\<lparr>heap := heap t2, rootunit := rootunit t2, nunit := nunit t2, cunit := cunit t2,
        fresh := fresh t2\<rparr> = t2"
    by blast
  have f2: "fresh t2 = fresh t" "heap t2 = heap t"
    by (simp_all add: t2 t1_def)
  have rest3: "paramfile t3 = paramfile t2" "probname t3 = probname t2" "datadir t3 = datadir t2"
    "nt t3 = nt t2" "xm t3 = xm t2" "xp t3 = xp t2" "xs t3 = xs t2"
    using arg_cong [OF t3(8), of paramfile] arg_cong [OF t3(8), of probname]
      arg_cong [OF t3(8), of datadir] arg_cong [OF t3(8), of nt]
      arg_cong [OF t3(8), of xm] arg_cong [OF t3(8), of xp] arg_cong [OF t3(8), of xs]
    by simp_all
  have live: "a < fresh t" if "a \<in> set as" for a
    using chain_live [OF inv(1) that] inv(3) [of a] by (cases "fresh t \<le> a") auto
  have above: "heap t3 a = None" if "Suc (fresh t) \<le> a" for a
  proof -
    have "a \<notin> set as" using live [of a] that by auto
    then have "heap t3 a = heap t2 a" using t3(7) [of a] that f2 by simp
    then show ?thesis using inv(3) [of a] that f2 by simp
  qed
  have inv3: "list_inv t3 (as @ [fresh t])"
    using t3(2,3) f2 above rest3 by (simp add: list_inv_def t3(4) t2 t1_def)
  have p3: "paramfile t3 = stream_at (concat (map render_decl ds) @ r)"
    by (simp add: rest3 t2)
  from Cons.IH [OF wfs Cons.prems(2) p3 inv3] obtain t' where t':
    "read_units t3 = Inr t'"
    "list_inv t' ((as @ [fresh t]) @ [fresh t3..<fresh t3 + length ds])"
    "fresh t' = fresh t3 + length ds"
    "contents (heap t') ((as @ [fresh t]) @ [fresh t3..<fresh t3 + length ds]) =
       contents (heap t3) (as @ [fresh t]) @
       map (\<lambda>d. Some (args_of (probname t3) (datadir t3) (nt t3) d)) ds"
    "files_open (heap t') ((as @ [fresh t]) @ [fresh t3..<fresh t3 + length ds]) =
       files_open (heap t3) (as @ [fresh t]) @ replicate (length ds) (Some False)"
    "\<And>a. a \<notin> set (as @ [fresh t]) \<Longrightarrow> a < fresh t3 \<Longrightarrow> heap t' a = heap t3 a"
    "buf (paramfile t') = tl r"
    by blast
  have upt: "(as @ [fresh t]) @ [fresh t3..<fresh t3 + length ds] =
      as @ [fresh t..<fresh t + length (d # ds)]"
    by (simp add: t3(4) f2 upt_conv_Cons del: upt_Suc)
  have run: "read_units t = Inr t'"
    using g nm(1) t3(1) t'(1)
    by (subst read_units.simps) (simp add: t1_def [symmetric] t2_def [symmetric])
  have same: "heap t' a = heap t a" if "a \<notin> set as" "a < fresh t" for a
    using t'(6) [of a] t3(7) [of a] that f2 t3(4) by simp
  note final = t'(2,4,5) [unfolded upt]
  have "contents (heap t3) (as @ [fresh t]) @
       map (\<lambda>d. Some (args_of (probname t3) (datadir t3) (nt t3) d)) ds =
     contents (heap t) as @ map (\<lambda>d. Some (args_of (probname t) (datadir t) (nt t) d)) (d # ds)"
    using t3(5) args by (simp add: f2 rest3 t2 t1_def)
  moreover have "files_open (heap t3) (as @ [fresh t]) @ replicate (length ds) (Some False) =
     files_open (heap t) as @ replicate (length (d # ds)) (Some False)"
    using t3(6) by (simp add: f2)
  moreover have "fresh t' = fresh t + length (d # ds)"
    using t'(3) by (simp add: t3(4) f2)
  ultimately show ?case
    using run final t'(7) same by (simp del: upt_Suc)
qed

lemma outputlist_content:
  "outputlist file pn dd n =
     (case file of
        Some content \<Rightarrow>
          (let s = scan_marker (init_frame pn dd n (open_stream content))
           in if eofbit (paramfile s)
              then Inl (Abort ''Error reading outputlist from input file\<newline>'')
              else read_units s)
      | None \<Rightarrow> Inl (Abort ''Error opening input file in outputlist.cpp\<newline>''))"
  by (cases "file") (simp_all add: outputlist_def outputlist_stream_def)

lemma list_inv_init: "list_inv (init_frame pn dd n f\<lparr>paramfile := g, line := l\<rparr>) []"
  by (simp add: list_inv_def init_frame_def)

lemma outputlist_section:
  assumes "front_ok front" "list_all wf_decl ds" "r = [] \<or> hd r = newline"
  shows "\<exists>t. outputlist (Some (input_file front ds r)) pn dd n = Inr t \<and>
           chain (heap t) (rootunit t) [0..<length ds] \<and>
           contents (heap t) [0..<length ds] = map (\<lambda>d. Some (args_of pn dd n d)) ds \<and>
           files_open (heap t) [0..<length ds] = replicate (length ds) (Some False) \<and>
           buf (paramfile t) = tl r"
proof -
  let ?R = "concat (map render_decl ds) @ r"
  let ?t0 = "init_frame pn dd n (open_stream (input_file front ds r))"
  let ?t1 = "?t0\<lparr>paramfile := stream_at ?R, line := marker\<rparr>"
  have "paramfile ?t0 = stream_at (unlines front @ marker @ newline # ?R)"
    by (simp add: init_frame_def open_stream_def stream_at_def input_file_def)
  with assms(1) have scan: "scan_marker ?t0 = ?t1"
    by (rule scan_marker_front)
  have "paramfile ?t1 = stream_at ?R"
    by simp
  from read_units_section [OF assms(2,3) this list_inv_init]
  obtain t where t: "read_units ?t1 = Inr t"
    "list_inv t ([] @ [fresh ?t1..<fresh ?t1 + length ds])"
    "contents (heap t) ([] @ [fresh ?t1..<fresh ?t1 + length ds]) =
       contents (heap ?t1) [] @ map (\<lambda>d. Some (args_of (probname ?t1) (datadir ?t1) (nt ?t1) d)) ds"
    "files_open (heap t) ([] @ [fresh ?t1..<fresh ?t1 + length ds]) =
       files_open (heap ?t1) [] @ replicate (length ds) (Some False)"
    "buf (paramfile t) = tl r"
    by blast
  have f: "fresh ?t1 = 0" "probname ?t1 = pn" "datadir ?t1 = dd" "nt ?t1 = n"
    by (simp_all add: init_frame_def)
  have "outputlist (Some (input_file front ds r)) pn dd n = Inr t"
    using t(1) by (simp add: outputlist_content scan)
  moreover have "chain (heap t) (rootunit t) [0..<length ds]"
    using t(2) by (simp add: list_inv_def f)
  moreover have "contents (heap t) [0..<length ds] = map (\<lambda>d. Some (args_of pn dd n d)) ds"
    using t(3) by (simp add: f contents_def)
  moreover have "files_open (heap t) [0..<length ds] = replicate (length ds) (Some False)"
    using t(4) by (simp add: f files_open_def)
  ultimately show ?thesis
    using t(5) by blast
qed





lemma scan_marker_keeps: "\<exists>f l. scan_marker t = t\<lparr>paramfile := f, line := l\<rparr>"
proof (induction t rule: scan_marker.induct)
  case (1 t)
  obtain f l where g: "getline (paramfile t) (line t) = (f, l)"
    by (cases "getline (paramfile t) (line t)")
  let ?t = "t\<lparr>paramfile := f, line := l\<rparr>"
  show ?case
  proof (cases "fail f \<or> l = marker")
    case True
    then have "scan_marker t = ?t"
      using g by (subst scan_marker.simps) (auto simp: Let_def)
    then show ?thesis by blast
  next
    case False
    then have "scan_marker t = scan_marker ?t"
      using g by (subst scan_marker.simps) (auto simp: Let_def)
    moreover from False obtain f' l' where "scan_marker ?t = ?t\<lparr>paramfile := f', line := l'\<rparr>"
      using 1 [OF g [symmetric] refl] by blast
    ultimately have "scan_marker t = t\<lparr>paramfile := f', line := l'\<rparr>"
      by simp
    then show ?thesis by blast
  qed
qed

lemma read_windows_keeps:
  "heap (read_windows i t) = heap t \<and> rootunit (read_windows i t) = rootunit t \<and>
   nunit (read_windows i t) = nunit t \<and> fresh (read_windows i t) = fresh t \<and>
   length (xm (read_windows i t)) = length (xm t) \<and>
   length (xp (read_windows i t)) = length (xp t) \<and>
   length (xs (read_windows i t)) = length (xs t)"
proof (induction i t rule: read_windows.induct)
  case (1 i t)
  show ?case
  proof (cases "i < 3")
    case True
    have "read_windows i t = read_windows (i + 1) (read_window i t)"
      using True by (subst read_windows.simps) simp
    moreover have "heap (read_window i t) = heap t \<and> rootunit (read_window i t) = rootunit t \<and>
        nunit (read_window i t) = nunit t \<and> fresh (read_window i t) = fresh t \<and>
        length (xm (read_window i t)) = length (xm t) \<and>
        length (xp (read_window i t)) = length (xp t) \<and>
        length (xs (read_window i t)) = length (xs t)"
      by (simp add: read_window_def read_xm_def read_xp_def read_xs_def split: prod.splits)
    ultimately show ?thesis
      using 1 [OF True] by simp
  next
    case False
    then show ?thesis
      by (subst (1 2 3 4 5 6 7) read_windows.simps) simp
  qed
qed

lemma read_item_keeps:
  "heap (read_item t) = heap t \<and> rootunit (read_item t) = rootunit t \<and>
   nunit (read_item t) = nunit t \<and> fresh (read_item t) = fresh t \<and>
   length (xm (read_item t)) = length (xm t) \<and>
   length (xp (read_item t)) = length (xp t) \<and>
   length (xs (read_item t)) = length (xs t)"
proof -
  let ?t = "read_ts (read_tp (read_tm (read_field (read_name t))))"
  have "heap ?t = heap t \<and> rootunit ?t = rootunit t \<and> nunit ?t = nunit t \<and> fresh ?t = fresh t \<and>
      xm ?t = xm t \<and> xp ?t = xp t \<and> xs ?t = xs t"
    by (simp add: read_ts_def read_tp_def read_tm_def read_field_def read_name_def split: prod.splits)
  with read_windows_keeps [of 0 ?t] show ?thesis
    by (simp add: read_item_def skip_newline_def split: prod.splits)
qed

lemma add_unit_inv:
  assumes "list_inv t as"
  shows "\<exists>t'. add_unit t = Inr t' \<and> list_inv t' (as @ [fresh t])"
proof -
  have inv: "chain (heap t) (rootunit t) as" "as = [] \<or> nunit t = Some (last as)"
    "\<And>a. fresh t \<le> a \<Longrightarrow> heap t a = None"
    "length (xm t) = 3" "length (xp t) = 3" "length (xs t) = 3"
    using assms by (simp_all add: list_inv_def)
  have "heap t (fresh t) = None"
    using inv(3) by simp
  from add_unit_appends [OF inv(1,2) this] obtain t' where t': "add_unit t = Inr t'"
    "chain (heap t') (rootunit t') (as @ [fresh t])" "nunit t' = Some (fresh t)"
    "fresh t' = Suc (fresh t)"
    "\<And>a. a \<notin> set as \<Longrightarrow> a \<noteq> fresh t \<Longrightarrow> heap t' a = heap t a"
    "t'\<lparr>heap := heap t, rootunit := rootunit t, nunit := nunit t, cunit := cunit t,
        fresh := fresh t\<rparr> = t"
    by blast
  have len: "xm t' = xm t" "xp t' = xp t" "xs t' = xs t"
    using arg_cong [OF t'(6), of xm] arg_cong [OF t'(6), of xp] arg_cong [OF t'(6), of xs]
    by simp_all
  have "heap t' a = None" if "Suc (fresh t) \<le> a" for a
  proof -
    have "a \<notin> set as"
      using chain_live [OF inv(1), of a] inv(3) [of a] that by auto
    then show ?thesis
      using t'(5) [of a] inv(3) [of a] that by simp
  qed
  then have "list_inv t' (as @ [fresh t])"
    using t'(2,3,4) inv(4-6) by (simp add: list_inv_def len)
  with t'(1) show ?thesis by blast
qed

lemma read_units_inv:
  "list_inv t as \<Longrightarrow> \<exists>t' as'. read_units t = Inr t' \<and> list_inv t' as'"
proof (induction t arbitrary: as rule: read_units.induct)
  case (1 t)
  obtain f l where g: "getline (paramfile t) (line t) = (f, l)"
    by (cases "getline (paramfile t) (line t)")
  let ?t1 = "t\<lparr>paramfile := f, line := l\<rparr>"
  have inv1: "list_inv ?t1 as"
    using 1(2) by (simp add: list_inv_def)
  show ?case
  proof (cases "fail f \<or> l = []")
    case True
    then have "read_units t = Inr ?t1"
      using g by (subst read_units.simps) (auto simp: Let_def)
    with inv1 show ?thesis by blast
  next
    case False
    have "list_inv (read_item ?t1) as"
      using inv1 read_item_keeps [of ?t1] by (simp add: list_inv_def)
    from add_unit_inv [OF this] obtain t2 where t2: "add_unit (read_item ?t1) = Inr t2"
      "list_inv t2 (as @ [fresh (read_item ?t1)])"
      by blast
    have "read_units t = read_units t2"
      using g False t2(1) by (subst read_units.simps) (auto simp: Let_def)
    moreover have "\<exists>t' as'. read_units t2 = Inr t' \<and> list_inv t' as'"
      using False t2 by (intro 1(1) [OF g [symmetric] refl _ _ t2(1)]) auto
    ultimately show ?thesis by simp
  qed
qed

lemma constructed_list_is_chain:
  assumes "outputlist file pn dd n = Inr t"
  shows "\<exists>as. chain (heap t) (rootunit t) as"
proof -
  from assms obtain content where opened: "file = Some content"
    by (cases "file") (simp_all add: outputlist_content)
  let ?t0 = "init_frame pn dd n (open_stream content)"
  obtain f l where scan: "scan_marker ?t0 = ?t0\<lparr>paramfile := f, line := l\<rparr>"
    using scan_marker_keeps by blast
  have "list_inv (scan_marker ?t0) []"
    unfolding scan by (rule list_inv_init)
  from read_units_inv [OF this] obtain t' as' where "read_units (scan_marker ?t0) = Inr t'"
    "list_inv t' as'"
    by blast
  moreover have "read_units (scan_marker ?t0) = Inr t"
    using assms by (simp add: outputlist_content opened Let_def split: if_splits)
  ultimately show ?thesis
    by (auto simp: list_inv_def)
qed

section \<open>The sample input\<close>

lemma sample_ok:
  "front_ok sample_front" "wf_decl body_wave" "wf_decl fault_slip"
  by (simp_all add: front_ok_def sample_front_def marker_def newline_def body_wave_def
    fault_slip_def wf_decl_def wf_window_def wf_number_def isspace_def INT_MIN_def INT_MAX_def)

lemma sample_args:
  "args_of ''test'' ''data/'' 1000 body_wave =
     \<lparr>a_probname = ''test'', a_datadir = ''data/'', a_nt = 1000,
      a_tm = Some 0, a_tp = Some 1000, a_ts = Some 10,
      a_xm = [Some 0, Some 0, Some (- 3)], a_xp = [Some 200, Some 100, Some 0],
      a_xs = [Some 2, Some 1, Some 1], a_field = ''vx'', a_name = ''vxbody''\<rparr>"
  "args_of ''test'' ''data/'' 1000 fault_slip =
     \<lparr>a_probname = ''test'', a_datadir = ''data/'', a_nt = 1000,
      a_tm = Some 0, a_tp = Some 1000, a_ts = Some 1,
      a_xm = [Some 100, Some 0, Some 0], a_xp = [Some 100, Some 100, Some 0],
      a_xs = [Some 1, Some 5, Some 1], a_field = ''U'', a_name = ''fault slip''\<rparr>"
  by (simp_all add: args_of_def body_wave_def fault_slip_def)

lemma sample_texts:
  "input_file sample_front [body_wave, fault_slip] (newline # ''[fdfault.frictionlist]\<newline>'') =
     ''[fdfault.problem]\<newline>name = test\<newline>[fdfault.outputlist]\<newline>vxbody\<newline>vx\<newline>0 1000 10\<newline>0 200 2\<newline>0 100 1\<newline>-3 0 1\<newline>fault slip\<newline> U 0 1000 1 100 100 1 0 100 5 0 0 1 \<newline>\<newline>[fdfault.frictionlist]\<newline>''"
  "input_file sample_front [body_wave]
       (newline # ''fault slip\<newline> U 0 1000 1 100 100 1 0 100 5 0 0 1 \<newline>'') =
     ''[fdfault.problem]\<newline>name = test\<newline>[fdfault.outputlist]\<newline>vxbody\<newline>vx\<newline>0 1000 10\<newline>0 200 2\<newline>0 100 1\<newline>-3 0 1\<newline>\<newline>fault slip\<newline> U 0 1000 1 100 100 1 0 100 5 0 0 1 \<newline>''"
  "input_file sample_front [body_wave] [] =
     ''[fdfault.problem]\<newline>name = test\<newline>[fdfault.outputlist]\<newline>vxbody\<newline>vx\<newline>0 1000 10\<newline>0 200 2\<newline>0 100 1\<newline>-3 0 1\<newline>''"
  "input_file sample_front [] [] =
     ''[fdfault.problem]\<newline>name = test\<newline>[fdfault.outputlist]\<newline>''"
  "input_file sample_front [] (newline # ''[fdfault.frictionlist]\<newline>'') =
     ''[fdfault.problem]\<newline>name = test\<newline>[fdfault.outputlist]\<newline>\<newline>[fdfault.frictionlist]\<newline>''"
  by code_simp+

lemma sample_list:
  "\<exists>t. outputlist (Some ''[fdfault.problem]\<newline>name = test\<newline>[fdfault.outputlist]\<newline>vxbody\<newline>vx\<newline>0 1000 10\<newline>0 200 2\<newline>0 100 1\<newline>-3 0 1\<newline>fault slip\<newline> U 0 1000 1 100 100 1 0 100 5 0 0 1 \<newline>\<newline>[fdfault.frictionlist]\<newline>'')
          ''test'' ''data/'' 1000 = Inr t \<and>
       chain (heap t) (rootunit t) [0, 1]"
proof -
  have "list_all wf_decl [body_wave, fault_slip]"
    by (simp add: sample_ok)
  from outputlist_section [OF sample_ok(1) this, of "newline # ''[fdfault.frictionlist]\<newline>''"
      "''test''" "''data/''" 1000]
  show ?thesis
    unfolding sample_texts by (auto simp: upt_conv_Cons)
qed

section \<open>Errors of the constructor\<close>

text \<open>
  Claim C5. When the input file cannot be opened, the constructor finds this out at once,
  writes the message \<^verbatim>\<open>Error opening input file in outputlist.cpp\<close> to standard error and
  aborts the whole computation with \<^verbatim>\<open>MPI_Abort\<close> on \<^verbatim>\<open>MPI_COMM_WORLD\<close>; it does not
  return an object.
\<close>

theorem unopenable_file_is_fatal:
  "outputlist None pn dd n = Inl (Abort ''Error opening input file in outputlist.cpp\<newline>'')"
  by (simp add: outputlist_content)




text \<open>
  Claim C4, as the code has it. When the end of the file comes where the next declaration
  or the blank line that ends the section would begin, that is, right after the marker line
  or right after the last line of a complete declaration, the constructor reports no error:
  the section ends there, and the list holds the units declared up to this point, in their
  order.
\<close>

theorem end_of_file_ends_section:
  assumes "front_ok front" "list_all wf_decl ds"
  shows "\<exists>t. outputlist (Some (input_file front ds [])) pn dd n = Inr t \<and>
           chain (heap t) (rootunit t) [0..<length ds] \<and>
           contents (heap t) [0..<length ds] = map (\<lambda>d. Some (args_of pn dd n d)) ds"
  using outputlist_section [OF assms, of "[]" pn dd n] by auto

theorem end_of_file_ends_section_witness:
  "front_ok sample_front \<and> list_all wf_decl [body_wave] \<and>
   map_sum id (\<lambda>t. (rootunit t, contents (heap t) [0]))
     (outputlist (Some ''[fdfault.problem]\<newline>name = test\<newline>[fdfault.outputlist]\<newline>vxbody\<newline>vx\<newline>0 1000 10\<newline>0 200 2\<newline>0 100 1\<newline>-3 0 1\<newline>'')
        ''test'' ''data/'' 1000) =
   Inr (Some 0,
     [Some \<lparr>a_probname = ''test'', a_datadir = ''data/'', a_nt = 1000,
        a_tm = Some 0, a_tp = Some 1000, a_ts = Some 10,
        a_xm = [Some 0, Some 0, Some (- 3)], a_xp = [Some 200, Some 100, Some 0],
        a_xs = [Some 2, Some 1, Some 1], a_field = ''vx'', a_name = ''vxbody''\<rparr>])"
proof -
  have h: "front_ok sample_front" "list_all wf_decl [body_wave]"
    by (simp_all add: sample_ok)
  from end_of_file_ends_section [OF h, of "''test''" "''data/''" 1000]
  show ?thesis
    using h unfolding sample_texts by (auto simp: sample_args)
qed

text \<open>
  The claim C4 as it was stated, that an end of file before the blank line is a fatal
  error, fails. With nothing behind the marker line the constructor returns the empty
  list. With the end of the file in the middle of the tokens of a unit it returns a list
  with that unit, whose remaining parameters were never assigned.
\<close>

theorem premature_end_of_file_not_fatal:
  "map_sum id rootunit
     (outputlist (Some ''[fdfault.outputlist]\<newline>'') ''test'' ''data/'' 1000) = Inr None \<and>
   map_sum id (\<lambda>t. (rootunit t, contents (heap t) [0]))
     (outputlist (Some ''[fdfault.outputlist]\<newline>vxbody\<newline>vx\<newline>0 1000'') ''test'' ''data/'' 1000) =
   Inr (Some 0,
     [Some \<lparr>a_probname = ''test'', a_datadir = ''data/'', a_nt = 1000,
        a_tm = Some 0, a_tp = Some 1000, a_ts = None,
        a_xm = [None, None, None], a_xp = [None, None, None], a_xs = [None, None, None],
        a_field = ''vx'', a_name = ''vxbody''\<rparr>])"
  by code_simp

section \<open>The list of a well-formed input file\<close>

text \<open>
  Claim C2. For an input file whose output-list section holds well-formed declarations
  and ends with a blank line, the constructor returns a list that holds exactly one unit
  for each declaration, constructed with the declared values, in the order of the
  declarations. Afterwards \<open>write_list\<close> and \<open>close_list\<close> leave the units of the list,
  their order and their arguments as they are. During construction the list changes only
  in \<open>add_unit\<close>, which keeps the units the list has and puts the new unit behind the last
  one.
\<close>

theorem construction_keeps_declaration_order:
  assumes "front_ok front" "list_all wf_decl ds"
  shows "\<exists>t. outputlist (Some (input_file front ds (newline # post))) pn dd n = Inr t \<and>
           chain (heap t) (rootunit t) [0..<length ds] \<and>
           contents (heap t) [0..<length ds] = map (\<lambda>d. Some (args_of pn dd n d)) ds \<and>
           (\<exists>h tr. write_list (heap t) (rootunit t) tstep dt dmn = Some (Inr (h, tr)) \<and>
              chain h (rootunit t) [0..<length ds] \<and>
              contents h [0..<length ds] = contents (heap t) [0..<length ds]) \<and>
           (\<exists>h tr. close_list (heap t) (rootunit t) = Some (Inr (h, tr)) \<and>
              chain h (rootunit t) [0..<length ds] \<and>
              contents h [0..<length ds] = contents (heap t) [0..<length ds]) \<and>
           (\<forall>f as. chain (heap f) (rootunit f) as \<and> (as = [] \<or> nunit f = Some (last as)) \<and>
                heap f (fresh f) = None \<longrightarrow>
              (\<exists>f'. add_unit f = Inr f' \<and> chain (heap f') (rootunit f') (as @ [fresh f]) \<and>
                 contents (heap f') as = contents (heap f) as))"
proof -
  from outputlist_section [OF assms, of "newline # post" pn dd n]
  obtain t where t: "outputlist (Some (input_file front ds (newline # post))) pn dd n = Inr t"
    "chain (heap t) (rootunit t) [0..<length ds]"
    "contents (heap t) [0..<length ds] = map (\<lambda>d. Some (args_of pn dd n d)) ds"
    by auto
  let ?as = "[0..<length ds]"
  have "write_list (heap t) (rootunit t) tstep dt dmn =
      Some (Inr (visit (write_unit tstep dt dmn) ?as (heap t), map (\<lambda>a. Write_unit a tstep dt dmn) ?as))"
    using write_loop_chain [OF t(2), of tstep dt dmn "[]"] by (simp add: write_list_def)
  then have w: "\<exists>h tr. write_list (heap t) (rootunit t) tstep dt dmn = Some (Inr (h, tr)) \<and>
      chain h (rootunit t) ?as \<and> contents h ?as = contents (heap t) ?as"
    using t(2) by (simp add: chain_visit_member contents_visit_member)
  have "close_list (heap t) (rootunit t) = Some (Inr (visit close_file ?as (heap t), map Close_file ?as))"
    using close_loop_chain [OF t(2), of "[]"] by (simp add: close_list_def)
  then have c: "\<exists>h tr. close_list (heap t) (rootunit t) = Some (Inr (h, tr)) \<and>
      chain h (rootunit t) ?as \<and> contents h ?as = contents (heap t) ?as"
    using t(2) by (simp add: chain_visit_member contents_visit_member)
  have a: "\<exists>f'. add_unit f = Inr f' \<and> chain (heap f') (rootunit f') (as @ [fresh f]) \<and>
        contents (heap f') as = contents (heap f) as"
    if "chain (heap f) (rootunit f) as" "as = [] \<or> nunit f = Some (last as)"
      "heap f (fresh f) = None" for f as
  proof -
    from add_unit_appends [OF that] obtain f' where f': "add_unit f = Inr f'"
      "chain (heap f') (rootunit f') (as @ [fresh f])"
      "contents (heap f') (as @ [fresh f]) = contents (heap f) as @ [Some (current_args f)]"
      by blast
    from f'(3) have "contents (heap f') as = contents (heap f) as"
      by (simp add: contents_def)
    with f'(1,2) show ?thesis by blast
  qed
  show ?thesis
    using t w c a by blast
qed

theorem construction_keeps_declaration_order_witness:
  "front_ok sample_front \<and> list_all wf_decl [body_wave, fault_slip] \<and>
   map_sum id (\<lambda>t. (rootunit t, contents (heap t) [0, 1]))
     (outputlist (Some ''[fdfault.problem]\<newline>name = test\<newline>[fdfault.outputlist]\<newline>vxbody\<newline>vx\<newline>0 1000 10\<newline>0 200 2\<newline>0 100 1\<newline>-3 0 1\<newline>fault slip\<newline> U 0 1000 1 100 100 1 0 100 5 0 0 1 \<newline>\<newline>[fdfault.frictionlist]\<newline>'')
        ''test'' ''data/'' 1000) =
   Inr (Some 0,
     [Some \<lparr>a_probname = ''test'', a_datadir = ''data/'', a_nt = 1000,
        a_tm = Some 0, a_tp = Some 1000, a_ts = Some 10,
        a_xm = [Some 0, Some 0, Some (- 3)], a_xp = [Some 200, Some 100, Some 0],
        a_xs = [Some 2, Some 1, Some 1], a_field = ''vx'', a_name = ''vxbody''\<rparr>,
      Some \<lparr>a_probname = ''test'', a_datadir = ''data/'', a_nt = 1000,
        a_tm = Some 0, a_tp = Some 1000, a_ts = Some 1,
        a_xm = [Some 100, Some 0, Some 0], a_xp = [Some 100, Some 100, Some 0],
        a_xs = [Some 1, Some 5, Some 1], a_field = ''U'', a_name = ''fault slip''\<rparr>])"
proof -
  have h: "front_ok sample_front" "list_all wf_decl [body_wave, fault_slip]"
    by (simp_all add: sample_ok)
  have two: "[0..<length [body_wave, fault_slip]] = [0, 1]"
    by (simp add: upt_conv_Cons)
  from construction_keeps_declaration_order [OF h, of "''[fdfault.frictionlist]\<newline>''"
      "''test''" "''data/''" 1000 0 "()" "()"]
  obtain t where
    "outputlist (Some (input_file sample_front [body_wave, fault_slip]
        (newline # ''[fdfault.frictionlist]\<newline>''))) ''test'' ''data/'' 1000 = Inr t"
    "chain (heap t) (rootunit t) [0, 1]"
    "contents (heap t) [0, 1] = [Some (args_of ''test'' ''data/'' 1000 body_wave),
                 Some (args_of ''test'' ''data/'' 1000 fault_slip)]"
    unfolding two by auto
  with h show ?thesis
    unfolding sample_texts by (simp add: sample_args)
qed

text \<open>
  Claim C6. For an input file with the marker line, one declaration (the name line, the
  field and the twelve numbers of the time window and the three space windows) and the
  blank line behind it, the constructor returns a list of one unit that carries the
  declared name, field and windows; the text behind the blank line is left unread, so no
  line of it is taken for a declaration.
\<close>

theorem single_declaration_scenario:
  assumes "front_ok front" "wf_decl d"
  shows "\<exists>t. outputlist (Some (input_file front [d] (newline # post))) pn dd n = Inr t \<and>
           chain (heap t) (rootunit t) [0] \<and>
           heap t 0 = Some \<lparr>args = args_of pn dd n d, next_unit = None, file_open = False\<rparr> \<and>
           buf (paramfile t) = post"
proof -
  have "list_all wf_decl [d]"
    using assms(2) by simp
  from outputlist_section [OF assms(1) this, of "newline # post" pn dd n]
  obtain t where t: "outputlist (Some (input_file front [d] (newline # post))) pn dd n = Inr t"
    "chain (heap t) (rootunit t) [0]" "contents (heap t) [0] = [Some (args_of pn dd n d)]"
    "files_open (heap t) [0] = [Some False]" "buf (paramfile t) = post"
    by auto
  from t(2) obtain u where u: "heap t 0 = Some u" "next_unit u = None"
    by auto
  with t(3,4) have "args u = args_of pn dd n d" "file_open u = False"
    by (simp_all add: contents_def files_open_def)
  with u(2) have "u = \<lparr>args = args_of pn dd n d, next_unit = None, file_open = False\<rparr>"
    by simp
  with t u(1) show ?thesis by blast
qed

theorem single_declaration_scenario_witness:
  "front_ok sample_front \<and> wf_decl body_wave \<and>
   map_sum id (\<lambda>t. (rootunit t, heap t 0, buf (paramfile t)))
     (outputlist (Some ''[fdfault.problem]\<newline>name = test\<newline>[fdfault.outputlist]\<newline>vxbody\<newline>vx\<newline>0 1000 10\<newline>0 200 2\<newline>0 100 1\<newline>-3 0 1\<newline>\<newline>fault slip\<newline> U 0 1000 1 100 100 1 0 100 5 0 0 1 \<newline>'')
        ''test'' ''data/'' 1000) =
   Inr (Some 0,
     Some \<lparr>args = \<lparr>a_probname = ''test'', a_datadir = ''data/'', a_nt = 1000,
        a_tm = Some 0, a_tp = Some 1000, a_ts = Some 10,
        a_xm = [Some 0, Some 0, Some (- 3)], a_xp = [Some 200, Some 100, Some 0],
        a_xs = [Some 2, Some 1, Some 1], a_field = ''vx'', a_name = ''vxbody''\<rparr>,
       next_unit = None, file_open = False\<rparr>,
     ''fault slip\<newline> U 0 1000 1 100 100 1 0 100 5 0 0 1 \<newline>'')"
proof -
  have h: "front_ok sample_front" "wf_decl body_wave"
    by (simp_all add: sample_ok)
  from single_declaration_scenario [OF h,
      of "''fault slip\<newline> U 0 1000 1 100 100 1 0 100 5 0 0 1 \<newline>''" "''test''" "''data/''" 1000]
  show ?thesis
    using h unfolding sample_texts by (auto simp: sample_args)
qed

text \<open>
  Claim C10, as the code has it. When the marker line, ended by its newline character, is
  followed at once by a blank line or by the end of the file, the constructor returns the
  empty list, with a null \<open>rootunit\<close>. On this list \<open>write_list\<close>, \<open>close_list\<close> and the
  destructor return at once, whatever the heap holds: they call no unit and change nothing.
\<close>

theorem empty_section_gives_empty_list:
  assumes "front_ok front" "r = [] \<or> (\<exists>post. r = newline # post)"
  shows "\<exists>t. outputlist (Some (input_file front [] r)) pn dd n = Inr t \<and> rootunit t = None \<and>
           write_list h (rootunit t) tstep dt dmn = Some (Inr (h, [])) \<and>
           close_list h (rootunit t) = Some (Inr (h, [])) \<and>
           destructor h (rootunit t) = Some (Inr (h, []))"
proof -
  have "r = [] \<or> hd r = newline"
    using assms(2) by auto
  from outputlist_section [OF assms(1) _ this, of "[]" pn dd n]
  obtain t where t: "outputlist (Some (input_file front [] r)) pn dd n = Inr t"
    "rootunit t = None"
    by auto
  have "write_list h None tstep dt dmn = Some (Inr (h, []))"
    by (simp add: write_list_def write_loop.simps)
  moreover have "close_list h None = Some (Inr (h, []))"
    by (simp add: close_list_def close_loop.simps)
  moreover have "destructor h None = Some (Inr (h, []))"
    by (simp add: destructor_def delete_loop.simps)
  ultimately show ?thesis
    using t by auto
qed

theorem empty_section_gives_empty_list_witness:
  "front_ok sample_front \<and>
   map_sum id rootunit
     (outputlist (Some ''[fdfault.problem]\<newline>name = test\<newline>[fdfault.outputlist]\<newline>'')
        ''test'' ''data/'' 1000) = Inr None \<and>
   map_sum id rootunit
     (outputlist (Some ''[fdfault.problem]\<newline>name = test\<newline>[fdfault.outputlist]\<newline>\<newline>[fdfault.frictionlist]\<newline>'')
        ''test'' ''data/'' 1000) = Inr None"
proof -
  have h: "front_ok sample_front"
    by (simp add: sample_ok)
  from empty_section_gives_empty_list [OF h, where r = "[]" and pn = "''test''"
      and dd = "''data/''" and n = 1000 and h = Map.empty and tstep = 0 and dt = "()" and dmn = "()"]
    empty_section_gives_empty_list [OF h, where r = "newline # ''[fdfault.frictionlist]\<newline>''"
      and pn = "''test''" and dd = "''data/''" and n = 1000 and h = Map.empty and tstep = 0
      and dt = "()" and dmn = "()"]
  show ?thesis
    using h unfolding sample_texts by auto
qed

text \<open>
  The claim C10 as it was stated also covers a marker that is the last line of the file
  and has no newline character behind it. There \<^verbatim>\<open>getline\<close> sets eofbit while it reads the
  marker, and the constructor takes the marker for missing and aborts.
\<close>

theorem unterminated_marker_aborts:
  "map_sum id rootunit
     (outputlist (Some ''[fdfault.problem]\<newline>name = test\<newline>[fdfault.outputlist]'')
        ''test'' ''data/'' 1000) =
   Inl (Abort ''Error reading outputlist from input file\<newline>'')"
  by code_simp

section \<open>Walking and tearing down the list\<close>

text \<open>
  Claim C7. On a list (the links lead from the root through the units at \<open>as\<close> to the null
  pointer, as they do in every list the constructor returns, see
  \<open>constructed_list_is_chain\<close>) \<open>write_list\<close> calls \<open>write_unit\<close> with its own arguments once
  on every unit, in the order of the list, and \<open>close_list\<close> calls \<open>close_file\<close> once on
  every unit, in the order of the list. Both leave the links and the arguments of the units
  as they were.
\<close>

theorem traversals_call_each_unit_once:
  assumes "chain h p as"
  shows "distinct as \<and>
         write_list h p tstep dt dmn =
           Some (Inr (visit (write_unit tstep dt dmn) as h, map (\<lambda>a. Write_unit a tstep dt dmn) as)) \<and>
         chain (visit (write_unit tstep dt dmn) as h) p as \<and>
         contents (visit (write_unit tstep dt dmn) as h) as = contents h as \<and>
         close_list h p = Some (Inr (visit close_file as h, map Close_file as)) \<and>
         chain (visit close_file as h) p as \<and>
         contents (visit close_file as h) as = contents h as"
  using assms chain_distinct [OF assms] write_loop_chain [OF assms, of tstep dt dmn "[]"]
    close_loop_chain [OF assms, of "[]"]
  by (simp add: write_list_def close_list_def chain_visit_member contents_visit_member)

theorem traversals_call_each_unit_once_witness:
  "(case outputlist (Some ''[fdfault.problem]\<newline>name = test\<newline>[fdfault.outputlist]\<newline>vxbody\<newline>vx\<newline>0 1000 10\<newline>0 200 2\<newline>0 100 1\<newline>-3 0 1\<newline>fault slip\<newline> U 0 1000 1 100 100 1 0 100 5 0 0 1 \<newline>\<newline>[fdfault.frictionlist]\<newline>'')
           ''test'' ''data/'' 1000 of
      Inl e \<Rightarrow> None
    | Inr t \<Rightarrow>
        Some (chain (heap t) (rootunit t) [0, 1],
          map_option (map_sum id snd) (write_list (heap t) (rootunit t) 7 () ()),
          map_option (map_sum id snd) (close_list (heap t) (rootunit t)))) =
   Some (True, Some (Inr [Write_unit 0 7 () (), Write_unit 1 7 () ()]),
     Some (Inr [Close_file 0, Close_file 1]))"
proof -
  from sample_list obtain t where t:
    "outputlist (Some ''[fdfault.problem]\<newline>name = test\<newline>[fdfault.outputlist]\<newline>vxbody\<newline>vx\<newline>0 1000 10\<newline>0 200 2\<newline>0 100 1\<newline>-3 0 1\<newline>fault slip\<newline> U 0 1000 1 100 100 1 0 100 5 0 0 1 \<newline>\<newline>[fdfault.frictionlist]\<newline>'')
          ''test'' ''data/'' 1000 = Inr t"
    and c: "chain (heap t) (rootunit t) [0, 1]"
    by blast
  from traversals_call_each_unit_once [OF c, of 7 "()" "()"]
  have "write_list (heap t) (rootunit t) 7 () () =
      Some (Inr (visit (write_unit 7 () ()) [0, 1] (heap t), map (\<lambda>a. Write_unit a 7 () ()) [0, 1]))"
    and "close_list (heap t) (rootunit t) =
      Some (Inr (visit close_file [0, 1] (heap t), map Close_file [0, 1]))"
    by blast+
  then show ?thesis
    by (simp add: t c [unfolded One_nat_def] del: chain_Cons)
qed



section \<open>The friction solve\<close>

text \<open>
  Claim C9. When the effective normal stress is zero or negative, the strength the solve
  uses is zero whatever the friction law gives, and the solve takes the branch of
  stress-free slip, without a root-find: the shear traction is zero and the slip velocity
  is \<open>phi / eta\<close>.
\<close>

theorem solve_fs_loss_of_contact:
  assumes "snc \<le> 0"
  shows "strength f snc i j t = 0 \<and>
         solve_fs f phi eta snc i j t = \<lparr>bc_v = phi / eta, bc_s = 0, bc_branch = Stress_free\<rparr>"
  using assms by (simp add: strength_def solve_fs_def)

theorem solve_fs_loss_of_contact_witness:
  "(- 2 :: real) \<le> 0 \<and> strength (\<lambda>sn i j t. 6) (- 2) 3 4 0 = 0 \<and>
   solve_fs (\<lambda>sn i j t. 6) 8 2 (- 2) 3 4 0 = \<lparr>bc_v = 4, bc_s = 0, bc_branch = Stress_free\<rparr>"
proof -
  have h: "(- 2 :: real) \<le> 0" by simp
  from solve_fs_loss_of_contact [OF h, of "\<lambda>sn i j t. 6" 3 4 0 8 2] show ?thesis
    by simp
qed

text \<open>
  Claim C8, as the model has it. At a point whose strength is not zero: when the
  magnitude of the elastic traction is below the strength, the slip velocity is zero, the
  point is locked and no root-find is done; when the traction exceeds the strength (and
  \<open>eta\<close> is positive), the solve returns the one slip velocity that lies on the radiation
  damping line and on the strength curve, and it is positive; when the traction equals the
  strength, the solve returns the slip velocity zero with the traction at the strength.
\<close>

theorem solve_fs_locked_or_slipping:
  assumes "strength f snc i j t \<noteq> 0"
  shows "(\<bar>phi\<bar> < strength f snc i j t \<longrightarrow>
            solve_fs f phi eta snc i j t = \<lparr>bc_v = 0, bc_s = phi, bc_branch = Locked\<rparr>) \<and>
         (strength f snc i j t < phi \<and> 0 < eta \<longrightarrow>
            bc_branch (solve_fs f phi eta snc i j t) = Root_find \<and>
            0 < bc_v (solve_fs f phi eta snc i j t) \<and>
            bc_s (solve_fs f phi eta snc i j t) = phi - eta * bc_v (solve_fs f phi eta snc i j t) \<and>
            bc_s (solve_fs f phi eta snc i j t) = strength f snc i j t \<and>
            (\<forall>w. phi - eta * w = strength f snc i j t \<longrightarrow> w = bc_v (solve_fs f phi eta snc i j t))) \<and>
         (phi = strength f snc i j t \<longrightarrow>
            bc_v (solve_fs f phi eta snc i j t) = 0 \<and>
            bc_s (solve_fs f phi eta snc i j t) = strength f snc i j t)"
proof -
  let ?str = "strength f snc i j t"
  have pos: "\<not> snc \<le> 0"
    using assms by (auto simp: strength_def)
  have locked: "solve_fs f phi eta snc i j t = \<lparr>bc_v = 0, bc_s = phi, bc_branch = Locked\<rparr>"
    if "\<bar>phi\<bar> < ?str"
    using that pos by (simp add: solve_fs_def)
  have slip: "solve_fs f phi eta snc i j t =
      \<lparr>bc_v = (phi - ?str) / eta, bc_s = ?str, bc_branch = Root_find\<rparr>"
    if "?str < phi"
    using that pos by (simp add: solve_fs_def Let_def)
  have uniq: "w = (phi - ?str) / eta" if "0 < eta" "phi - eta * w = ?str" for w
    using that by (simp add: field_simps)
  have tie: "solve_fs f phi eta snc i j t = \<lparr>bc_v = 0, bc_s = ?str, bc_branch = Root_find\<rparr>"
    if "phi = ?str"
    using that pos by (simp add: solve_fs_def Let_def)
  show ?thesis
    using locked slip uniq tie by (auto simp: field_simps)
qed

theorem solve_fs_locked_or_slipping_witness:
  "solve_fs (\<lambda>sn i j t. 6 / 10 * sn) 5 2 10 0 0 0 = \<lparr>bc_v = 0, bc_s = 5, bc_branch = Locked\<rparr> \<and>
   solve_fs (\<lambda>sn i j t. 6 / 10 * sn) 8 2 10 0 0 0 = \<lparr>bc_v = 1, bc_s = 6, bc_branch = Root_find\<rparr>"
proof -
  have h: "strength (\<lambda>sn i j t. 6 / 10 * sn) 10 0 0 0 \<noteq> 0"
    by (simp add: strength_def)
  have s: "strength (\<lambda>sn i j t. 6 / 10 * sn) 10 0 0 0 = 6"
    by (simp add: strength_def)
  from solve_fs_locked_or_slipping [OF h, of 5 2] solve_fs_locked_or_slipping [OF h, of 8 2]
  show ?thesis
    unfolding s by (cases "solve_fs (\<lambda>sn i j t. 6 / 10 * sn) 8 2 10 0 0 0") auto
qed

text \<open>
  The claim C8 as it was stated asks for a positive slip velocity whenever the traction
  is not below the strength. When the two are equal, the only point on both curves has the
  slip velocity zero, and this is what the solve returns.
\<close>

theorem solve_fs_tie_has_no_slip:
  "strength (\<lambda>sn i j t. 6 / 10 * sn) 10 0 0 0 \<noteq> 0 \<and>
   \<not> \<bar>6\<bar> < strength (\<lambda>sn i j t. 6 / 10 * sn) 10 0 0 0 \<and>
   solve_fs (\<lambda>sn i j t. 6 / 10 * sn) 6 2 10 0 0 0 = \<lparr>bc_v = 0, bc_s = 6, bc_branch = Root_find\<rparr>"
  by (simp add: strength_def solve_fs_def)

end
